theory Spec2Isabelle
  imports Complex_Main "HOL-Library.Word"
begin

section \<open>The TcpHyblaI congestion controller\<close>

text \<open>
  The development embeds the congestion controller \<^verbatim>\<open>TcpHyblaI\<close>, the class declared
  in \<^verbatim>\<open>tcp-hybla-i.h\<close>, member function by member function: \<^verbatim>\<open>PktsAcked\<close>,
  \<^verbatim>\<open>HyblaIRecalcParam\<close>, \<^verbatim>\<open>ComputeScalingFactor\<close>, \<^verbatim>\<open>SlowStart\<close>,
  \<^verbatim>\<open>CongestionAvoidance\<close> and \<^verbatim>\<open>Fork\<close>.

  Conventions of the embedding.
  \<^item> \<^verbatim>\<open>uint32_t\<close> is \<open>32 word\<close>: \<open>+\<close>, \<open>-\<close> and \<open>*\<close> wrap modulo \<open>2 ^ 32\<close>, \<open>div\<close> is the
    unsigned quotient, \<open>unat\<close> reads the value.
  \<^item> \<^verbatim>\<open>double\<close> is the type \<open>double\<close> of the finite binary64 values: every arithmetic
    operation of the source is the exact operation followed by rounding to the nearest
    value with a 53-bit significand, ties to even.
  \<^item> What C++ leaves undefined, and what aborts the program, is a \<open>fault\<close>: an integer or
    floating division by zero, a conversion of a \<^verbatim>\<open>double\<close> to \<^verbatim>\<open>uint32_t\<close> whose
    truncated value is not representable, and a failed \<^verbatim>\<open>NS_ASSERT\<close>. A function
    that can fault returns \<open>fault + 'a\<close>, with \<open>Inl\<close> for the fault.
  \<^item> A method that receives \<^verbatim>\<open>Ptr<TcpSocketState> tcb\<close> and is not \<^verbatim>\<open>const\<close> returns
    the socket state and the controller it leaves behind.
\<close>

subsection \<open>Binary64 rounding\<close>

text \<open>Rounding of a real to the nearest integer, a tie going to the even one.\<close>

definition rne :: "real \<Rightarrow> int" where
  "rne y = (let f = \<lfloor>y\<rfloor> in
            if y - of_int f < 1/2 then f
            else if 1/2 < y - of_int f then f + 1
            else if even f then f else f + 1)"

text \<open>The binary exponent of a real other than zero: \<open>2 powi expo x \<le> \<bar>x\<bar> < 2 powi (expo x + 1)\<close>.\<close>

definition expo :: "real \<Rightarrow> int" where
  "expo x = \<lfloor>log 2 \<bar>x\<bar>\<rfloor>"

text \<open>
  Rounding to binary64: the real is scaled so that its magnitude lies between \<open>2 ^ 52\<close>
  and \<open>2 ^ 53\<close>, rounded to an integer and scaled back. The exponent is not bounded:
  the values are those of binary64 with neither overflow nor underflow. In this
  controller a value outside the exponent range of binary64 arises only from a threshold
  or scaling attribute of extreme magnitude, and is then added to 1.0 or clamped at 0.5,
  with the same result in both arithmetics, and from \<open>2 ^ rho\<close> for \<open>rho \<ge> 1024\<close>, where the
  conversion of the increment to \<^verbatim>\<open>uint32_t\<close> is out of range in both.
\<close>

definition rnd :: "real \<Rightarrow> real" where
  "rnd x = (if x = 0 then 0
            else of_int (rne (x / 2 powi (expo x - 52))) * 2 powi (expo x - 52))"

text \<open>The reals that are binary64 values: a significand below \<open>2 ^ 53\<close> times a power of two.\<close>

definition B64 :: "real set" where
  "B64 = {x. \<exists>m e :: int. \<bar>m\<bar> < 2 ^ 53 \<and> x = of_int m * 2 powi e}"

typedef double = B64
  morphisms val Abs_double
  unfolding B64_def by (rule exI [of _ 0]) simp

text \<open>The \<^verbatim>\<open>double\<close> nearest to a real: a literal of the source, or the result of an operation.\<close>

definition fl :: "real \<Rightarrow> double" where
  "fl x = Abs_double (rnd x)"

subsection \<open>Machine values\<close>

type_synonym uint32_t = "32 word"

datatype fault = IntDivByZero | FloatDivByZero | CastOutOfRange | AssertFailed

text \<open>The operators \<^verbatim>\<open>+\<close>, \<^verbatim>\<open>-\<close> and \<^verbatim>\<open>*\<close> of \<^verbatim>\<open>double\<close>.\<close>

definition fadd :: "double \<Rightarrow> double \<Rightarrow> double" where
  "fadd a b = fl (val a + val b)"

definition fsub :: "double \<Rightarrow> double \<Rightarrow> double" where
  "fsub a b = fl (val a - val b)"

definition fmul :: "double \<Rightarrow> double \<Rightarrow> double" where
  "fmul a b = fl (val a * val b)"

text \<open>The quotient \<^verbatim>\<open>a / b\<close> of two \<^verbatim>\<open>double\<close>s.\<close>

definition fdiv :: "double \<Rightarrow> double \<Rightarrow> fault + double" where
  "fdiv a b = (if val b = 0 then Inl FloatDivByZero else Inr (fl (val a / val b)))"

text \<open>\<^verbatim>\<open>std::max(a, b)\<close>, which is \<^verbatim>\<open>(a < b) ? b : a\<close>.\<close>

definition fmax :: "double \<Rightarrow> double \<Rightarrow> double" where
  "fmax a b = (if val a < val b then b else a)"

text \<open>
  Modelled from the spec: \<^verbatim>\<open>std::pow\<close> is the C library's. The spec writes its two uses as
  \<open>2^rho\<close> and \<open>rho\<^sup>2\<close>; each is taken as the \<^verbatim>\<open>double\<close> nearest to the exact power,
  which is the power itself wherever that is a \<^verbatim>\<open>double\<close> (as \<open>2 ^ 1 = 2\<close>).
\<close>

definition pow_2 :: "double \<Rightarrow> double" where
  "pow_2 rho = fl (2 powr val rho)"

definition pow_sq :: "double \<Rightarrow> double" where
  "pow_sq rho = fl ((val rho)\<^sup>2)"

text \<open>The conversion \<^verbatim>\<open>(double) x\<close> of a \<^verbatim>\<open>uint32_t\<close>: exact, every 32-bit value is a double.\<close>

definition to_double :: "uint32_t \<Rightarrow> double" where
  "to_double w = fl (real (unat w))"

text \<open>The conversion \<^verbatim>\<open>(double) x\<close> of a 64-bit integer: the nearest \<^verbatim>\<open>double\<close>.\<close>

definition int_to_double :: "int \<Rightarrow> double" where
  "int_to_double i = fl (real_of_int i)"

text \<open>Truncation towards zero, the rounding of C++ conversions to an integer type.\<close>

definition trunc :: "real \<Rightarrow> int" where
  "trunc x = (if 0 \<le> x then \<lfloor>x\<rfloor> else \<lceil>x\<rceil>)"

text \<open>
  \<^verbatim>\<open>static_cast<uint32_t>(x)\<close> of a \<^verbatim>\<open>double\<close>: the fractional part is discarded; the
  behaviour is undefined when the truncated value is not a \<^verbatim>\<open>uint32_t\<close>.
\<close>

definition to_uint32 :: "double \<Rightarrow> fault + uint32_t" where
  "to_uint32 x =
     (if - 1 < val x \<and> val x < 2 ^ 32 then Inr (word_of_int (trunc (val x)))
      else Inl CastOutOfRange)"

text \<open>Sequencing: the first fault ends the computation, as it ends the program.\<close>

definition and_then :: "fault + 'a \<Rightarrow> ('a \<Rightarrow> fault + 'b) \<Rightarrow> fault + 'b" where
  "and_then m f = (case m of Inl e \<Rightarrow> Inl e | Inr x \<Rightarrow> f x)"

subsection \<open>Durations\<close>

text \<open>
  Modelled from the spec: \<^verbatim>\<open>ns3::Time\<close> belongs to the simulator library, whose sources
  are not part of the repository. The spec calls its values durations, zero until the
  first sample, scaled by the smoothing weights and added. A duration is modelled as a
  real number of seconds; scaling a duration by a \<^verbatim>\<open>double\<close> and adding two durations
  are exact. \<^verbatim>\<open>GetSeconds\<close> reads a duration as the nearest \<^verbatim>\<open>double\<close>;
  \<^verbatim>\<open>GetMilliSeconds\<close> returns an integer (the source converts its result with
  \<^verbatim>\<open>(double)\<close>), the whole milliseconds of the duration.
\<close>

type_synonym Time = real

definition Seconds :: "real \<Rightarrow> Time" where
  "Seconds x = x"

definition MilliSeconds :: "int \<Rightarrow> Time" where
  "MilliSeconds n = real_of_int n / 1000"

definition IsZero :: "Time \<Rightarrow> bool" where
  "IsZero t = (t = 0)"

definition GetSeconds :: "Time \<Rightarrow> double" where
  "GetSeconds t = fl t"

definition GetMilliSeconds :: "Time \<Rightarrow> int" where
  "GetMilliSeconds t = trunc (t * 1000)"

subsection \<open>Socket state and controller state\<close>

text \<open>The fields of \<^verbatim>\<open>TcpSocketState\<close> that the controller reads or writes.\<close>

record TcpSocketState =
  m_cWnd :: uint32_t
  m_ssThresh :: uint32_t
  m_segmentSize :: uint32_t
  m_bytesInFlight :: uint32_t
  m_minRtt :: Time
  m_srtt :: Time
  m_nextTxSequence :: uint32_t
  m_lastAckedSeq :: uint32_t

text \<open>The data members of \<^verbatim>\<open>class TcpHyblaI\<close> (\<^verbatim>\<open>tcp-hybla-i.h\<close>).\<close>

record TcpHyblaI =
  m_sRtt :: Time
  m_alpha :: double
  m_inFlightThresh :: double
  m_rtoScalingFactor :: double
  m_rRtt :: Time
  m_rho :: double
  m_cWndCnt :: double

text \<open>The default constructor \<^verbatim>\<open>TcpHyblaI::TcpHyblaI()\<close>.\<close>

definition TcpHyblaI_ctor :: TcpHyblaI where
  "TcpHyblaI_ctor =
     \<lparr>m_sRtt = Seconds 0, m_alpha = fl 0.9, m_inFlightThresh = fl 0.8,
      m_rtoScalingFactor = fl 1.0, m_rRtt = MilliSeconds 50, m_rho = fl 1.0,
      m_cWndCnt = fl 0.0\<rparr>"

text \<open>
  \<^verbatim>\<open>Fork\<close> copies the object with the copy constructor, which copies every member.
\<close>

definition Fork :: "TcpHyblaI \<Rightarrow> TcpHyblaI" where
  "Fork sock =
     \<lparr>m_sRtt = m_sRtt sock, m_alpha = m_alpha sock, m_inFlightThresh = m_inFlightThresh sock,
      m_rtoScalingFactor = m_rtoScalingFactor sock, m_rRtt = m_rRtt sock, m_rho = m_rho sock,
      m_cWndCnt = m_cWndCnt sock\<rparr>"

text \<open>
  Modelled from the spec: \<^verbatim>\<open>TcpSocketState::GetCwndInSegments\<close> is the simulator's;
  the spec gives it as \<open>segmentsInWindow \<leftarrow> congestionWindow / maxSegmentSize\<close>, a count.
  Both operands are \<^verbatim>\<open>uint32_t\<close>, so the quotient is the integer one, and a segment
  size of zero is a division by zero.
\<close>

definition GetCwndInSegments :: "TcpSocketState \<Rightarrow> fault + uint32_t" where
  "GetCwndInSegments tcb =
     (if m_segmentSize tcb = 0 then Inl IntDivByZero
      else Inr (m_cWnd tcb div m_segmentSize tcb))"

subsection \<open>HyblaIRecalcParam\<close>

text \<open>The local variable \<^verbatim>\<open>effectiveRtt\<close>.\<close>

definition effectiveRtt :: "TcpSocketState \<Rightarrow> TcpHyblaI \<Rightarrow> Time" where
  "effectiveRtt tcb s = (if IsZero (m_sRtt s) then m_minRtt tcb else m_sRtt s)"

definition HyblaIRecalcParam :: "TcpSocketState \<Rightarrow> TcpHyblaI \<Rightarrow> fault + TcpHyblaI" where
  "HyblaIRecalcParam tcb s =
     and_then (fdiv (int_to_double (GetMilliSeconds (effectiveRtt tcb s)))
                    (int_to_double (GetMilliSeconds (m_rRtt s))))
       (\<lambda>candidateRho.
          let rho = fmax candidateRho (fl 1.0) in
          if val rho > 0.0 then Inr (s\<lparr>m_rho := rho\<rparr>) else Inl AssertFailed)"

subsection \<open>PktsAcked\<close>

definition PktsAcked ::
  "TcpSocketState \<Rightarrow> uint32_t \<Rightarrow> Time \<Rightarrow> TcpHyblaI \<Rightarrow> fault + (TcpSocketState \<times> TcpHyblaI)" where
  "PktsAcked tcb segmentsAcked rtt s =
     (let s1 = (if m_sRtt s = Seconds 0 then s\<lparr>m_sRtt := rtt\<rparr>
                else s\<lparr>m_sRtt := (m_sRtt s * val (m_alpha s)) +
                                   (rtt * val (fsub (fl 1.0) (m_alpha s)))\<rparr>) in
      if rtt = m_minRtt tcb then
        and_then (HyblaIRecalcParam tcb s1) (\<lambda>s2. Inr (tcb, s2))
      else Inr (tcb, s1))"

subsection \<open>ComputeScalingFactor\<close>

text \<open>The local variables of \<^verbatim>\<open>ComputeScalingFactor\<close>, in the order the source computes them.\<close>

definition inflightRatio :: "TcpSocketState \<Rightarrow> fault + double" where
  "inflightRatio tcb =
     (let cwndInBytes = to_double (m_cWnd tcb);
          inFlight = to_double (m_bytesInFlight tcb)
      in if val cwndInBytes > 0 then fdiv inFlight cwndInBytes else Inr (fl 0.0))"

definition rtoRatio :: "TcpSocketState \<Rightarrow> TcpHyblaI \<Rightarrow> fault + double" where
  "rtoRatio tcb s =
     (let srttSeconds = GetSeconds (m_srtt tcb);
          computedRto = fmul srttSeconds (fl 2.0)
      in and_then (if IsZero (m_sRtt s) then Inr (fl 1.0)
                   else fdiv computedRto (GetSeconds (m_sRtt s)))
           (\<lambda>r. Inr (fmax r (fl 1.0))))"

text \<open>
  Modelled from the spec: the difference of two \<^verbatim>\<open>SequenceNumber32\<close> is the simulator's;
  the spec gives it as \<open>outstanding \<leftarrow> nextSequenceToSend - lastAcknowledgedSequence\<close>, an
  unsigned wraparound-safe subtraction in sequence-number space. The source stores it in
  a \<^verbatim>\<open>uint32_t\<close>.
\<close>

definition outstanding :: "TcpSocketState \<Rightarrow> uint32_t" where
  "outstanding tcb = m_nextTxSequence tcb - m_lastAckedSeq tcb"

definition outstandingFactor :: "TcpSocketState \<Rightarrow> fault + double" where
  "outstandingFactor tcb =
     and_then (GetCwndInSegments tcb)
       (\<lambda>segs. Inr (if outstanding tcb > segs * 2 then fl 0.9 else fl 1.0))"

definition inflightFactor :: "TcpHyblaI \<Rightarrow> double \<Rightarrow> double" where
  "inflightFactor s ratio =
     (if val ratio > val (m_inFlightThresh s)
      then fmax (fsub (fl 1.0) (fmul (fsub ratio (m_inFlightThresh s)) (fl 0.5))) (fl 0.5)
      else fl 1.0)"

definition rtoFactor :: "TcpHyblaI \<Rightarrow> double \<Rightarrow> fault + double" where
  "rtoFactor s rto =
     fdiv (fl 1.0) (fadd (fl 1.0) (fmul (fsub rto (fl 1.0)) (m_rtoScalingFactor s)))"

definition ComputeScalingFactor :: "TcpSocketState \<Rightarrow> TcpHyblaI \<Rightarrow> fault + double" where
  "ComputeScalingFactor tcb s =
     and_then (inflightRatio tcb) (\<lambda>ratio.
     and_then (rtoRatio tcb s) (\<lambda>rto.
     and_then (outstandingFactor tcb) (\<lambda>ofac.
     and_then (rtoFactor s rto) (\<lambda>rfac.
       Inr (fmax (fmul (fmul (inflightFactor s ratio) rfac) ofac) (fl 0.5))))))"

subsection \<open>SlowStart\<close>

definition SlowStart ::
  "TcpSocketState \<Rightarrow> uint32_t \<Rightarrow> TcpHyblaI \<Rightarrow> fault + (TcpSocketState \<times> TcpHyblaI \<times> uint32_t)" where
  "SlowStart tcb segmentsAcked s =
     (if \<not> m_cWnd tcb \<le> m_ssThresh tcb then Inl AssertFailed
      else if segmentsAcked \<ge> 1 then
        (let increment = fsub (pow_2 (m_rho s)) (fl 1.0) in
         and_then (ComputeScalingFactor tcb s) (\<lambda>scale.
         and_then (to_uint32 (fmul (fmul increment scale) (to_double (m_segmentSize tcb))))
           (\<lambda>incr.
             Inr (tcb\<lparr>m_cWnd := min (m_cWnd tcb + incr) (m_ssThresh tcb)\<rparr>, s,
                  segmentsAcked - 1))))
      else Inr (tcb, s, 0))"

subsection \<open>CongestionAvoidance\<close>

text \<open>
  The value of the local variable \<^verbatim>\<open>increment\<close> in an iteration of the loop that
  does not fault: \<^verbatim>\<open>std::pow(m_rho, 2) / static_cast<double>(segCwnd)\<close>.
\<close>

definition ca_increment :: "TcpSocketState \<Rightarrow> TcpHyblaI \<Rightarrow> double" where
  "ca_increment tcb s =
     fl (val (pow_sq (m_rho s)) / val (to_double (m_cWnd tcb div m_segmentSize tcb)))"

text \<open>
  The \<^verbatim>\<open>while (segmentsAcked > 0)\<close> loop: one iteration for each of the
  \<open>unat segmentsAcked\<close> acknowledged segments.
\<close>

fun ca_loop :: "nat \<Rightarrow> TcpSocketState \<Rightarrow> TcpHyblaI \<Rightarrow> fault + TcpHyblaI" where
  "ca_loop 0 tcb s = Inr s"
| "ca_loop (Suc n) tcb s =
     and_then (GetCwndInSegments tcb) (\<lambda>segCwnd.
     and_then (fdiv (pow_sq (m_rho s)) (to_double segCwnd)) (\<lambda>increment.
       ca_loop n tcb (s\<lparr>m_cWndCnt := fadd (m_cWndCnt s) increment\<rparr>)))"

definition CongestionAvoidance ::
  "TcpSocketState \<Rightarrow> uint32_t \<Rightarrow> TcpHyblaI \<Rightarrow> fault + (TcpSocketState \<times> TcpHyblaI)" where
  "CongestionAvoidance tcb segmentsAcked s =
     and_then (ca_loop (unat segmentsAcked) tcb s) (\<lambda>s1.
       if val (m_cWndCnt s1) \<ge> 1.0 then
         and_then (to_uint32 (m_cWndCnt s1)) (\<lambda>inc.
           let s2 = s1\<lparr>m_cWndCnt := fsub (m_cWndCnt s1) (to_double inc)\<rparr> in
           and_then (ComputeScalingFactor tcb s2) (\<lambda>scale.
           and_then (to_uint32 (fmul (fmul (to_double inc) scale) (to_double (m_segmentSize tcb))))
             (\<lambda>scaledInc. Inr (tcb\<lparr>m_cWnd := m_cWnd tcb + scaledInc\<rparr>, s2))))
       else Inr (tcb, s1))"

subsection \<open>The quantities of the specification\<close>

text \<open>
  The spec states the growth steps with numbers that do not wrap. These definitions
  follow its words, with byte counts in unbounded integers, to be compared with what the
  code does in \<^verbatim>\<open>uint32_t\<close>. The products and sums are those of \<^verbatim>\<open>double\<close>, taken in
  the order the spec writes them.

  \<open>incrementBytes \<leftarrow> floor(increment \<times> maxSegmentSize)\<close> with
  \<open>increment \<leftarrow> (2^rho - 1) \<times> ComputeScalingFactor(snapshot)\<close>:
\<close>

definition ss_bytes :: "TcpSocketState \<Rightarrow> TcpHyblaI \<Rightarrow> double \<Rightarrow> int" where
  "ss_bytes tcb s scale =
     \<lfloor>val (fmul (fmul (fsub (pow_2 (m_rho s)) (fl 1)) scale) (to_double (m_segmentSize tcb)))\<rfloor>"

text \<open>
  The credit counter after \<open>fractionalCreditCounter \<leftarrow> fractionalCreditCounter +
  rho\<^sup>2 / segmentsInWindow\<close> has been done once for each acknowledged segment:
\<close>

definition credit_after :: "TcpSocketState \<Rightarrow> uint32_t \<Rightarrow> TcpHyblaI \<Rightarrow> double" where
  "credit_after tcb n s = ((\<lambda>c. fadd c (ca_increment tcb s)) ^^ unat n) (m_cWndCnt s)"

text \<open>\<open>floor(wholeSegments \<times> scale \<times> maxSegmentSize)\<close> with \<open>wholeSegments \<leftarrow> floor(counter)\<close>:\<close>

definition ca_bytes :: "TcpSocketState \<Rightarrow> double \<Rightarrow> double \<Rightarrow> int" where
  "ca_bytes tcb c scale =
     \<lfloor>val (fmul (fmul (int_to_double \<lfloor>val c\<rfloor>) scale) (to_double (m_segmentSize tcb)))\<rfloor>"

text \<open>
  The closed form \<open>fractionalCreditCounter \<leftarrow> fractionalCreditCounter + segmentsAcked \<times>
  rho\<^sup>2 / segmentsInWindow\<close>, a single multiplication in place of the loop:
\<close>

definition credit_closed_form :: "TcpSocketState \<Rightarrow> uint32_t \<Rightarrow> TcpHyblaI \<Rightarrow> double" where
  "credit_closed_form tcb n s =
     fadd (m_cWndCnt s)
          (fl (val (fmul (to_double n) (pow_sq (m_rho s))) /
               val (to_double (m_cWnd tcb div m_segmentSize tcb))))"

subsection \<open>Reachable controller states\<close>

text \<open>
  A controller starts in the state the constructor builds. Its attributes \<^verbatim>\<open>Alpha\<close>,
  \<^verbatim>\<open>InFlightThreshold\<close> and \<^verbatim>\<open>RtoScalingFactor\<close> can be set within the ranges their
  checkers accept (\<^verbatim>\<open>GetTypeId\<close>); it can be forked; and the host calls \<^verbatim>\<open>PktsAcked\<close>,
  \<^verbatim>\<open>SlowStart\<close> and \<^verbatim>\<open>CongestionAvoidance\<close> with any socket state and any arguments.
  A call that faults leaves no state behind.
\<close>

inductive reachable :: "TcpHyblaI \<Rightarrow> bool" where
  ctor: "reachable TcpHyblaI_ctor"
| fork: "reachable s \<Longrightarrow> reachable (Fork s)"
| set_alpha: "reachable s \<Longrightarrow> 0 \<le> val a \<Longrightarrow> val a \<le> 1 \<Longrightarrow> reachable (s\<lparr>m_alpha := a\<rparr>)"
| set_thresh: "reachable s \<Longrightarrow> reachable (s\<lparr>m_inFlightThresh := t\<rparr>)"
| set_rto: "reachable s \<Longrightarrow> 0 \<le> val k \<Longrightarrow> reachable (s\<lparr>m_rtoScalingFactor := k\<rparr>)"
| pkts: "reachable s \<Longrightarrow> PktsAcked tcb n rtt s = Inr (tcb', s') \<Longrightarrow> reachable s'"
| slow: "reachable s \<Longrightarrow> SlowStart tcb n s = Inr (tcb', s', r) \<Longrightarrow> reachable s'"
| cong: "reachable s \<Longrightarrow> CongestionAvoidance tcb n s = Inr (tcb', s') \<Longrightarrow> reachable s'"

subsection \<open>Concrete snapshots\<close>

text \<open>
  A saturated connection: ten segments of window, all of it in flight, the host's
  smoothed RTT and the controller's both 100 ms.
\<close>

definition tcb_busy :: TcpSocketState where
  "tcb_busy =
     \<lparr>m_cWnd = 14600, m_ssThresh = 65535, m_segmentSize = 1460, m_bytesInFlight = 14600,
      m_minRtt = MilliSeconds 100, m_srtt = MilliSeconds 100,
      m_nextTxSequence = 14601, m_lastAckedSeq = 1\<rparr>"

definition ctl_busy :: TcpHyblaI where
  "ctl_busy = TcpHyblaI_ctor\<lparr>m_sRtt := MilliSeconds 100\<rparr>"

text \<open>
  An effective RTT of 75.5 ms: the host's minimum RTT is 75.5 ms and so is the
  controller's smoothed RTT.
\<close>

definition tcb_sub_ms :: TcpSocketState where
  "tcb_sub_ms =
     \<lparr>m_cWnd = 14600, m_ssThresh = 65535, m_segmentSize = 1460, m_bytesInFlight = 0,
      m_minRtt = Seconds 0.0755, m_srtt = Seconds 0.0755,
      m_nextTxSequence = 1, m_lastAckedSeq = 1\<rparr>"

definition ctl_sub_ms :: TcpHyblaI where
  "ctl_sub_ms = TcpHyblaI_ctor\<lparr>m_sRtt := Seconds 0.0755\<rparr>"

text \<open>
  A connection whose minimum RTT is 68 ms, and the controller after a first sample of
  104 ms: the sample is not the minimum, so \<open>rho\<close> is still 1.
\<close>

definition tcb_path :: TcpSocketState where
  "tcb_path =
     \<lparr>m_cWnd = 14600, m_ssThresh = 65535, m_segmentSize = 1460, m_bytesInFlight = 0,
      m_minRtt = MilliSeconds 68, m_srtt = MilliSeconds 104,
      m_nextTxSequence = 1, m_lastAckedSeq = 1\<rparr>"

definition ctl_path :: TcpHyblaI where
  "ctl_path = TcpHyblaI_ctor\<lparr>m_sRtt := MilliSeconds 104\<rparr>"

text \<open>
  The smoothed RTT after a second sample of 68 ms, with the weights 0.9 and \<open>1.0 - 0.9\<close>
  as \<^verbatim>\<open>double\<close>s: a little over 100.4 ms.
\<close>

definition srtt_path :: Time where
  "srtt_path = 226080701293998901 / 2251799813685248000"

text \<open>A controller whose smoothed RTT is 150 ms, after a first sample of 150 ms.\<close>

definition ctl_slow :: TcpHyblaI where
  "ctl_slow = TcpHyblaI_ctor\<lparr>m_sRtt := MilliSeconds 150\<rparr>"

text \<open>A connection whose window is zero while two segments are outstanding.\<close>

definition tcb_empty :: TcpSocketState where
  "tcb_empty =
     \<lparr>m_cWnd = 0, m_ssThresh = 65535, m_segmentSize = 1460, m_bytesInFlight = 2920,
      m_minRtt = MilliSeconds 100, m_srtt = MilliSeconds 100,
      m_nextTxSequence = 2921, m_lastAckedSeq = 1\<rparr>"

text \<open>
  A window 296 bytes below \<open>2 ^ 32\<close>, with the slow-start threshold at the largest
  \<^verbatim>\<open>uint32_t\<close> and nothing in flight.
\<close>

definition tcb_top :: TcpSocketState where
  "tcb_top =
     \<lparr>m_cWnd = 4294967000, m_ssThresh = 4294967295, m_segmentSize = 1460, m_bytesInFlight = 0,
      m_minRtt = MilliSeconds 50, m_srtt = MilliSeconds 50,
      m_nextTxSequence = 1, m_lastAckedSeq = 1\<rparr>"

text \<open>
  The same window on a path with a round-trip time of 128 s, and the controller after
  the first acknowledgment on it: \<open>rho = 128000 / 50 = 2560\<close>.
\<close>

definition tcb_far :: TcpSocketState where
  "tcb_far =
     \<lparr>m_cWnd = 4294967000, m_ssThresh = 4294967000, m_segmentSize = 1460, m_bytesInFlight = 0,
      m_minRtt = Seconds 128, m_srtt = Seconds 128,
      m_nextTxSequence = 1, m_lastAckedSeq = 1\<rparr>"

definition ctl_far :: TcpHyblaI where
  "ctl_far = TcpHyblaI_ctor\<lparr>m_sRtt := Seconds 128, m_rho := fl 2560\<rparr>"

text \<open>A window of ten segments in slow start, nothing in flight.\<close>

definition tcb_start :: TcpSocketState where
  "tcb_start =
     \<lparr>m_cWnd = 14600, m_ssThresh = 65535, m_segmentSize = 1460, m_bytesInFlight = 0,
      m_minRtt = MilliSeconds 50, m_srtt = MilliSeconds 50,
      m_nextTxSequence = 1, m_lastAckedSeq = 1\<rparr>"

text \<open>
  A window of 25000 bytes in segments of 1000, with 23300 bytes in flight: the in-flight
  ratio 0.932 is above the threshold 0.8.
\<close>

definition tcb_loaded :: TcpSocketState where
  "tcb_loaded =
     \<lparr>m_cWnd = 25000, m_ssThresh = 65535, m_segmentSize = 1000, m_bytesInFlight = 23300,
      m_minRtt = MilliSeconds 50, m_srtt = MilliSeconds 50,
      m_nextTxSequence = 1, m_lastAckedSeq = 1\<rparr>"

text \<open>
  A window of five segments in congestion avoidance, so that one acknowledged segment
  is worth 0.2 of credit at \<open>rho = 1\<close>, and a controller whose counter stands at 0.95.
\<close>

definition tcb_five :: TcpSocketState where
  "tcb_five =
     \<lparr>m_cWnd = 7300, m_ssThresh = 7300, m_segmentSize = 1460, m_bytesInFlight = 0,
      m_minRtt = MilliSeconds 50, m_srtt = MilliSeconds 50,
      m_nextTxSequence = 1, m_lastAckedSeq = 1\<rparr>"

definition ctl_095 :: TcpHyblaI where
  "ctl_095 = TcpHyblaI_ctor\<lparr>m_cWndCnt := fl 0.95\<rparr>"

text \<open>A window of two segments in congestion avoidance.\<close>

definition tcb_two :: TcpSocketState where
  "tcb_two =
     \<lparr>m_cWnd = 2920, m_ssThresh = 2920, m_segmentSize = 1460, m_bytesInFlight = 0,
      m_minRtt = MilliSeconds 50, m_srtt = MilliSeconds 50,
      m_nextTxSequence = 1, m_lastAckedSeq = 1\<rparr>"

text \<open>A window of ten segments in congestion avoidance.\<close>

definition tcb_ten :: TcpSocketState where
  "tcb_ten =
     \<lparr>m_cWnd = 14600, m_ssThresh = 14600, m_segmentSize = 1460, m_bytesInFlight = 0,
      m_minRtt = MilliSeconds 50, m_srtt = MilliSeconds 50,
      m_nextTxSequence = 1, m_lastAckedSeq = 1\<rparr>"

section \<open>Properties\<close>

subsection \<open>Sequencing\<close>

lemma and_then_Inr [simp]: "and_then (Inr x) f = f x"
  by (simp add: and_then_def)

lemma and_then_Inl [simp]: "and_then (Inl e) f = Inl e"
  by (simp add: and_then_def)

subsection \<open>Rounding\<close>

lemma expo_bounds:
  assumes "x \<noteq> 0"
  shows "2 powi expo x \<le> \<bar>x\<bar>" and "\<bar>x\<bar> < 2 powi (expo x + 1)"
proof -
  have p: "0 < \<bar>x\<bar>" using assms by simp
  have b: "2 powr of_int (expo x) \<le> \<bar>x\<bar> \<and> \<bar>x\<bar> < 2 powr (of_int (expo x) + 1)"
    using floor_log_eq_powr_iff [OF p, of 2 "expo x"] by (simp add: expo_def)
  have e1: "(2::real) powr of_int (expo x) = 2 powi expo x"
    by (rule powr_real_of_int') simp_all
  have "(2::real) powr of_int (expo x + 1) = 2 powi (expo x + 1)"
    by (rule powr_real_of_int') simp_all
  then have e2: "(2::real) powr (of_int (expo x) + 1) = 2 powi (expo x + 1)"
    by simp
  show "2 powi expo x \<le> \<bar>x\<bar>" and "\<bar>x\<bar> < 2 powi (expo x + 1)"
    using b unfolding e1 e2 by simp_all
qed

lemma expo_unique:
  assumes "2 powi k \<le> \<bar>x\<bar>" and "\<bar>x\<bar> < 2 powi (k + 1)"
  shows "expo x = k"
proof -
  have p: "0 < \<bar>x\<bar>"
    using assms(1) zero_less_power_int [of "2::real" k] by linarith
  have e1: "(2::real) powr of_int k = 2 powi k"
    by (rule powr_real_of_int') simp_all
  have "(2::real) powr of_int (k + 1) = 2 powi (k + 1)"
    by (rule powr_real_of_int') simp_all
  then have e2: "(2::real) powr (of_int k + 1) = 2 powi (k + 1)"
    by simp
  have "2 powr of_int k \<le> \<bar>x\<bar> \<and> \<bar>x\<bar> < 2 powr (of_int k + 1)"
    unfolding e1 e2 using assms by simp
  then show ?thesis
    using floor_log_eq_powr_iff [OF p, of 2 k] by (simp add: expo_def)
qed

lemma rne_of_int [simp]: "rne (of_int i) = i"
  by (simp add: rne_def)

lemma rne_floor_le: "\<lfloor>y\<rfloor> \<le> rne y"
  by (simp add: rne_def Let_def)

lemma rne_le_floor: "rne y \<le> \<lfloor>y\<rfloor> + 1"
  by (simp add: rne_def Let_def)

lemma rne_ge_int:
  assumes "of_int k \<le> y"
  shows "k \<le> rne y"
proof -
  have "k \<le> \<lfloor>y\<rfloor>" using assms by (simp add: le_floor_iff)
  then show ?thesis using rne_floor_le [of y] by linarith
qed

lemma rne_le_int:
  assumes "y \<le> of_int k"
  shows "rne y \<le> k"
proof (cases "y = of_int k")
  case True
  then show ?thesis by simp
next
  case False
  then have "y < of_int k" using assms by simp
  then have "\<lfloor>y\<rfloor> < k" by (simp add: floor_less_iff)
  then show ?thesis using rne_le_floor [of y] by linarith
qed

lemma rnd_eval:
  assumes "2 powi k \<le> \<bar>x\<bar>" and "\<bar>x\<bar> < 2 powi (k + 1)"
  shows "rnd x = of_int (rne (x / 2 powi (k - 52))) * 2 powi (k - 52)"
proof -
  have "0 < \<bar>x\<bar>"
    using assms(1) zero_less_power_int [of "2::real" k] by linarith
  then have "x \<noteq> 0" by simp
  then show ?thesis
    by (simp add: rnd_def expo_unique [OF assms])
qed


lemma pow2_shift: "(2::real) powi k = 2 ^ n * 2 powi (k - int n)"
  using power_int_add [of "2::real" "int n" "k - int n"] by simp

lemma pow2_not_le_0: "\<not> (2::real) powi k \<le> 0"
  using zero_less_power_int [of "2::real" k] by linarith

lemma scaled_bounds:
  assumes "x \<noteq> 0"
  shows "2 ^ 52 \<le> \<bar>x / 2 powi (expo x - 52)\<bar>" and "\<bar>x / 2 powi (expo x - 52)\<bar> < 2 ^ 53"
proof -
  define q :: real where "q = 2 powi (expo x - 52)"
  have q: "0 < q" by (simp add: q_def)
  have a: "2 powi expo x = 2 ^ 52 * q"
    using pow2_shift [of "expo x" 52] by (simp add: q_def)
  have b: "2 powi (expo x + 1) = 2 ^ 53 * q"
    using pow2_shift [of "expo x + 1" 53] by (simp add: q_def)
  have "2 ^ 52 * q \<le> \<bar>x\<bar>" and "\<bar>x\<bar> < 2 ^ 53 * q"
    using expo_bounds [OF assms] a b by simp_all
  moreover have "\<bar>x / q\<bar> = \<bar>x\<bar> / q"
    using q by simp
  ultimately show "2 ^ 52 \<le> \<bar>x / 2 powi (expo x - 52)\<bar>"
    and "\<bar>x / 2 powi (expo x - 52)\<bar> < 2 ^ 53"
    unfolding q_def [symmetric] using q by (simp_all add: le_divide_eq divide_less_eq)
qed

lemma rne_scaled_pos:
  assumes "0 < x"
  shows "2 ^ 52 \<le> rne (x / 2 powi (expo x - 52))" and "rne (x / 2 powi (expo x - 52)) \<le> 2 ^ 53"
proof -
  define y where "y = x / 2 powi (expo x - 52)"
  have "0 < y" using assms by (simp add: y_def)
  then have "2 ^ 52 \<le> y" "y < 2 ^ 53"
    using scaled_bounds [of x] assms by (simp_all add: y_def)
  then have "of_int (2 ^ 52) \<le> y" "y \<le> of_int (2 ^ 53)" by simp_all
  then have "2 ^ 52 \<le> rne y" "rne y \<le> 2 ^ 53"
    by (simp_all only: rne_ge_int rne_le_int)
  then show "2 ^ 52 \<le> rne (x / 2 powi (expo x - 52))"
    and "rne (x / 2 powi (expo x - 52)) \<le> 2 ^ 53"
    unfolding y_def by simp_all
qed

lemma rne_scaled_neg:
  assumes "x < 0"
  shows "- (2 ^ 53) \<le> rne (x / 2 powi (expo x - 52))"
    and "rne (x / 2 powi (expo x - 52)) \<le> - (2 ^ 52)"
proof -
  define y where "y = x / 2 powi (expo x - 52)"
  have "y < 0" using assms by (simp add: y_def divide_neg_pos)
  then have "y \<le> - (2 ^ 52)" "- (2 ^ 53) < y"
    using scaled_bounds [of x] assms by (simp_all add: y_def)
  then have "of_int (- (2 ^ 53)) \<le> y" "y \<le> of_int (- (2 ^ 52))" by simp_all
  then have "- (2 ^ 53) \<le> rne y" "rne y \<le> - (2 ^ 52)"
    by (simp_all only: rne_ge_int rne_le_int)
  then show "- (2 ^ 53) \<le> rne (x / 2 powi (expo x - 52))"
    and "rne (x / 2 powi (expo x - 52)) \<le> - (2 ^ 52)"
    unfolding y_def by simp_all
qed

lemma rnd_0 [simp]: "rnd 0 = 0"
  by (simp add: rnd_def)

lemma rnd_pos_bounds:
  assumes "0 < x"
  shows "2 powi expo x \<le> rnd x" and "rnd x \<le> 2 powi (expo x + 1)"
proof -
  define q :: real where "q = 2 powi (expo x - 52)"
  have q: "0 < q" by (simp add: q_def)
  have a: "2 powi expo x = 2 ^ 52 * q"
    using pow2_shift [of "expo x" 52] by (simp add: q_def)
  have b: "2 powi (expo x + 1) = 2 ^ 53 * q"
    using pow2_shift [of "expo x + 1" 53] by (simp add: q_def)
  have r: "rnd x = of_int (rne (x / q)) * q"
    using assms by (simp add: rnd_def q_def)
  have "(2::real) ^ 52 \<le> of_int (rne (x / q))"
    using rne_scaled_pos(1) [OF assms] unfolding q_def [symmetric]
    by (metis of_int_le_iff of_int_numeral of_int_power)
  then show "2 powi expo x \<le> rnd x"
    unfolding a r using q by simp
  have "of_int (rne (x / q)) \<le> (2::real) ^ 53"
    using rne_scaled_pos(2) [OF assms] unfolding q_def [symmetric]
    by (metis of_int_le_iff of_int_numeral of_int_power)
  then show "rnd x \<le> 2 powi (expo x + 1)"
    unfolding b r using q by simp
qed

lemma rnd_pos: "0 < x \<Longrightarrow> 0 < rnd x"
  using rnd_pos_bounds(1) [of x] zero_less_power_int [of "2::real" "expo x"] by linarith

lemma rnd_nonneg: "0 \<le> x \<Longrightarrow> 0 \<le> rnd x"
  using rnd_pos [of x] by (cases "x = 0") simp_all

lemma rnd_nonpos:
  assumes "x \<le> 0"
  shows "rnd x \<le> 0"
proof (cases "x = 0")
  case True
  then show ?thesis by simp
next
  case False
  then have n: "x < 0" using assms by simp
  have "- ((2::int) ^ 52) \<le> 0" by simp
  then have "rne (x / 2 powi (expo x - 52)) \<le> 0"
    using rne_scaled_neg(2) [OF n] by linarith
  then have "of_int (rne (x / 2 powi (expo x - 52))) * 2 powi (expo x - 52) \<le> (0::real)"
    by (intro mult_nonpos_nonneg) simp_all
  then show ?thesis using False by (simp add: rnd_def)
qed

lemma pow2_in_B64: "2 powi k \<in> B64"
proof -
  have "\<bar>1::int\<bar> < 2 ^ 53 \<and> (2::real) powi k = of_int 1 * 2 powi k" by simp
  then show ?thesis unfolding B64_def by blast
qed

lemma rnd_in_B64: "rnd x \<in> B64"
proof (cases "x = 0")
  case True
  have "\<bar>0::int\<bar> < 2 ^ 53 \<and> (0::real) = of_int 0 * 2 powi 0" by simp
  then have "(0::real) \<in> B64" unfolding B64_def by blast
  then show ?thesis using True by simp
next
  case False
  define m where "m = rne (x / 2 powi (expo x - 52))"
  have r: "rnd x = of_int m * 2 powi (expo x - 52)"
    using False by (simp add: rnd_def m_def)
  have b: "\<bar>m\<bar> \<le> 2 ^ 53"
  proof (cases "0 < x")
    case True
    then show ?thesis using rne_scaled_pos [OF True] by (simp add: m_def)
  next
    case F: False
    then have "x < 0" using False by simp
    then show ?thesis using rne_scaled_neg [of x] by (simp add: m_def)
  qed
  show ?thesis
  proof (cases "\<bar>m\<bar> < 2 ^ 53")
    case True
    then show ?thesis unfolding B64_def r by blast
  next
    case F: False
    then have c: "m = 2 ^ 53 \<or> m = - (2 ^ 53)" using b by linarith
    have s: "(2::real) powi (expo x - 51) = 2 * 2 powi (expo x - 52)"
      using pow2_shift [of "expo x - 51" 1] by simp
    have "of_int m * 2 powi (expo x - 52) = of_int (m div 2) * (2::real) powi (expo x - 51)"
      using c unfolding s by auto
    moreover have "\<bar>m div 2\<bar> < 2 ^ 53"
      using c by auto
    ultimately show ?thesis unfolding B64_def r by blast
  qed
qed

lemma pow2_less_imp: "(2::real) powi a < 2 powi b \<Longrightarrow> a < b"
  using power_int_increasing [of b a "2::real"] by (cases "a < b") simp_all

lemma pow2_le_imp: "(2::real) powi a \<le> 2 powi b \<Longrightarrow> a \<le> b"
  using power_int_strict_increasing [of b a "2::real"] by (cases "a \<le> b") simp_all

lemma rnd_id:
  assumes "x \<in> B64"
  shows "rnd x = x"
proof (cases "x = 0")
  case True
  then show ?thesis by simp
next
  case False
  from assms obtain m j :: int where m: "\<bar>m\<bar> < 2 ^ 53" and x: "x = of_int m * 2 powi j"
    unfolding B64_def by blast
  define e where "e = expo x"
  define q :: real where "q = 2 powi (e - 52)"
  have q: "0 < q" by (simp add: q_def)
  have "\<bar>real_of_int m\<bar> < 2 ^ 53"
    using m by (metis of_int_abs of_int_less_iff of_int_numeral of_int_power)
  then have "\<bar>real_of_int m\<bar> * 2 powi j < 2 ^ 53 * 2 powi j"
    by simp
  moreover have "\<bar>x\<bar> = \<bar>of_int m\<bar> * 2 powi j"
    unfolding x by (simp add: abs_mult)
  moreover have "(2::real) ^ 53 * 2 powi j = 2 powi (j + 53)"
    using pow2_shift [of "j + 53" 53] by simp
  moreover have "2 powi e \<le> \<bar>x\<bar>"
    unfolding e_def by (rule expo_bounds(1) [OF False])
  ultimately have "2 powi e < (2::real) powi (j + 53)"
    by linarith
  then have "e < j + 53" by (rule pow2_less_imp)
  then have d: "0 \<le> j - (e - 52)" by simp
  define n where "n = nat (j - (e - 52))"
  have "(2::real) powi j = 2 ^ n * 2 powi (j - int n)"
    by (rule pow2_shift)
  moreover have "j - int n = e - 52"
    using d by (simp add: n_def)
  ultimately have jq: "(2::real) powi j = 2 ^ n * q"
    by (simp add: q_def)
  have "x / q = of_int (m * 2 ^ n)"
    unfolding x jq using q by simp
  then have "rne (x / q) = m * 2 ^ n"
    by (simp only: rne_of_int)
  then have "of_int (rne (x / q)) * q = x"
    unfolding x jq by simp
  then show ?thesis
    using False by (simp add: rnd_def q_def e_def)
qed

lemma rnd_idem [simp]: "rnd (rnd x) = rnd x"
  by (rule rnd_id) (rule rnd_in_B64)

lemma rnd_ge_pow2:
  assumes "2 powi k \<le> x"
  shows "2 powi k \<le> rnd x"
proof -
  have p: "0 < x"
    using assms zero_less_power_int [of "2::real" k] by linarith
  have "(2::real) powi k < 2 powi (expo x + 1)"
    using assms expo_bounds(2) [of x] p by simp
  then have "k < expo x + 1" by (rule pow2_less_imp)
  then have "(2::real) powi k \<le> 2 powi expo x"
    by (intro power_int_increasing) simp_all
  then show ?thesis
    using rnd_pos_bounds(1) [OF p] by linarith
qed

lemma rnd_le_pow2:
  assumes "x \<le> 2 powi k"
  shows "rnd x \<le> 2 powi k"
proof (cases "0 < x")
  case False
  then have "rnd x \<le> 0" by (intro rnd_nonpos) simp
  then show ?thesis
    using zero_less_power_int [of "2::real" k] by linarith
next
  case True
  show ?thesis
  proof (cases "x = 2 powi k")
    case T: True
    then show ?thesis using rnd_id [OF pow2_in_B64, of k] by simp
  next
    case False
    then have "x < 2 powi k" using assms by simp
    then have "(2::real) powi expo x < 2 powi k"
      using expo_bounds(1) [of x] True by simp
    then have "expo x < k" by (rule pow2_less_imp)
    then have "(2::real) powi (expo x + 1) \<le> 2 powi k"
      by (intro power_int_increasing) simp_all
    then show ?thesis
      using rnd_pos_bounds(2) [OF True] by linarith
  qed
qed

lemma int_in_B64: "\<bar>i\<bar> < 2 ^ 53 \<Longrightarrow> of_int i \<in> B64"
proof -
  assume "\<bar>i\<bar> < 2 ^ 53"
  then have "\<bar>i\<bar> < 2 ^ 53 \<and> (of_int i :: real) = of_int i * 2 powi 0" by simp
  then show ?thesis unfolding B64_def by blast
qed

lemma dyadic_in_B64: "\<bar>m\<bar> < 2 ^ 53 \<Longrightarrow> of_int m / 2 ^ k \<in> B64"
proof -
  assume "\<bar>m\<bar> < 2 ^ 53"
  then have "\<bar>m\<bar> < 2 ^ 53 \<and> (of_int m / 2 ^ k :: real) = of_int m * 2 powi (- int k)"
    by (simp add: power_int_minus field_simps)
  then show ?thesis unfolding B64_def by blast
qed

lemma frac_in_B64:
  assumes "x \<in> B64" and "0 \<le> x"
  shows "x - of_int \<lfloor>x\<rfloor> \<in> B64"
proof -
  from assms obtain m j :: int where m: "\<bar>m\<bar> < 2 ^ 53" and x: "x = of_int m * 2 powi j"
    unfolding B64_def by blast
  have m0: "0 \<le> m"
    using assms(2) pow2_not_le_0 [of j] unfolding x by (simp add: zero_le_mult_iff)
  show ?thesis
  proof (cases "0 \<le> j")
    case True
    then have "x = of_int (m * 2 ^ nat j)"
      by (simp add: x power_int_def)
    then have "\<lfloor>x\<rfloor> = m * 2 ^ nat j"
      by (simp only: floor_of_int)
    then have "x - of_int \<lfloor>x\<rfloor> = of_int 0"
      using \<open>x = of_int (m * 2 ^ nat j)\<close> by simp
    then show ?thesis
      using int_in_B64 [of 0] by simp
  next
    case False
    define d :: int where "d = 2 ^ nat (- j)"
    define k where "k = m div d"
    define r where "r = m mod d"
    have d: "0 < d" by (simp add: d_def)
    have dr: "0 < real_of_int d" using d by simp
    have pj: "(2::real) powi j = 1 / of_int d"
      using False by (simp add: power_int_def d_def inverse_eq_divide power_one_over)
    have xd: "x = of_int m / of_int d"
      by (simp add: x pj)
    have flx: "\<lfloor>x\<rfloor> = k"
      unfolding xd k_def by (rule floor_divide_of_int_eq)
    have "m = d * k + r"
      by (simp add: k_def r_def)
    then have "real_of_int m = of_int d * of_int k + of_int r"
      by (metis of_int_add of_int_mult)
    then have "real_of_int m / of_int d = of_int k + of_int r / of_int d"
      using dr by (simp add: add_divide_distrib)
    then have "x - of_int k = of_int r * 2 powi j"
      unfolding xd pj by simp
    then have e: "x - of_int \<lfloor>x\<rfloor> = of_int r * 2 powi j"
      by (simp only: flx)
    have "0 \<le> r" "r \<le> m"
      using d m0 by (simp_all add: r_def zmod_le_nonneg_dividend)
    then have "\<bar>r\<bar> < 2 ^ 53" using m by linarith
    then show ?thesis unfolding B64_def using e by blast
  qed
qed


lemma rne_error: "\<bar>real_of_int (rne y) - y\<bar> \<le> 1/2"
  unfolding rne_def Let_def by (auto simp: abs_le_iff)

lemma rnd_error:
  assumes "x \<noteq> 0"
  shows "\<bar>rnd x - x\<bar> \<le> 2 powi (expo x - 53)"
proof -
  define u :: real where "u = 2 powi (expo x - 52)"
  have u: "0 < u" by (simp add: u_def)
  have h: "u / 2 = 2 powi (expo x - 53)"
    using pow2_shift [of "expo x - 52" 1] by (simp add: u_def)
  have "rnd x - x = (real_of_int (rne (x / u)) - x / u) * u"
    using assms u by (simp add: rnd_def u_def [symmetric] algebra_simps)
  then have "\<bar>rnd x - x\<bar> = \<bar>real_of_int (rne (x / u)) - x / u\<bar> * u"
    using u by (simp add: abs_mult)
  also have "\<dots> \<le> 1/2 * u"
    using rne_error [of "x / u"] u by (intro mult_right_mono) simp_all
  finally show ?thesis using h by simp
qed

lemma rnd_error_unit:
  assumes "0 \<le> x" and "x \<le> 1"
  shows "\<bar>rnd x - x\<bar> \<le> 1 / 2 ^ 54"
proof (cases "x = 0 \<or> x = 1")
  case True
  then show ?thesis
    using rnd_id [OF int_in_B64 [of 1]] by auto
next
  case False
  then have x: "x \<noteq> 0" "0 < x" "x < 1" using assms by simp_all
  have "2 powi expo x \<le> \<bar>x\<bar>" using expo_bounds(1) [OF x(1)] .
  then have "(2::real) powi expo x < 2 powi 0" using x by simp
  then have "expo x < 0" by (rule pow2_less_imp)
  then have "expo x - 53 \<le> - 54" by simp
  then have "(2::real) powi (expo x - 53) \<le> 2 powi (- 54)"
    by (intro power_int_increasing) simp_all
  also have "\<dots> = 1 / 2 ^ 54"
    by (simp add: power_int_minus inverse_eq_divide)
  finally show ?thesis using rnd_error [OF x(1)] by linarith
qed

lemma one_minus_in_B64:
  assumes "a \<in> B64" and "1/2 \<le> a" and "a \<le> 1"
  shows "1 - a \<in> B64"
proof -
  from assms(1) obtain m j :: int where m: "\<bar>m\<bar> < 2 ^ 53" and a: "a = of_int m * 2 powi j"
    unfolding B64_def by blast
  have mp: "0 < m"
  proof (rule ccontr)
    assume "\<not> 0 < m"
    then have "real_of_int m \<le> 0" by simp
    then have "a \<le> 0" unfolding a by (intro mult_nonpos_nonneg) simp_all
    then show False using assms(2) by simp
  qed
  have j: "- 53 \<le> j"
  proof (rule ccontr)
    assume "\<not> - 53 \<le> j"
    then have "j \<le> - 54" by simp
    then have "(2::real) powi j \<le> 2 powi (- 54)"
      by (intro power_int_increasing) simp_all
    moreover have "real_of_int m < 2 ^ 53"
      using m mp by (metis abs_of_pos of_int_less_numeral_power_cancel_iff)
    ultimately have "a < 2 ^ 53 * 2 powi (- 54)"
      unfolding a using mp
      by (intro mult_less_le_imp_less) simp_all
    then show False using assms(2) by (simp add: power_int_minus)
  qed
  define n :: int where "n = m * 2 ^ nat (j + 53)"
  have "(2::real) powi j = 2 ^ nat (j + 53) / 2 ^ 53"
    using j pow2_shift [of "j + 53" 53] by (simp add: power_int_def)
  then have an: "a = of_int n / 2 ^ 53"
    by (simp add: a n_def)
  then have e: "1 - a = of_int (2 ^ 53 - n) / 2 ^ 53"
    by simp
  have "real_of_int n \<le> 2 ^ 53" "2 ^ 52 \<le> real_of_int n"
    using assms(2,3) unfolding an by (simp_all add: field_simps)
  then have "n \<le> 2 ^ 53" "2 ^ 52 \<le> n"
    by (simp_all add: of_int_le_numeral_power_cancel_iff numeral_power_le_of_int_cancel_iff)
  then have "\<bar>2 ^ 53 - n\<bar> < 2 ^ 53" by simp
  then show ?thesis
    unfolding e by (rule dyadic_in_B64)
qed

lemma rnd_neg:
  assumes "x < 0"
  shows "rnd x < 0"
proof -
  have "- ((2::int) ^ 52) < 0" by simp
  then have "rne (x / 2 powi (expo x - 52)) < 0"
    using rne_scaled_neg(2) [OF assms] by linarith
  then have "of_int (rne (x / 2 powi (expo x - 52))) * 2 powi (expo x - 52) < (0::real)"
    by (intro mult_neg_pos) simp_all
  then show ?thesis using assms by (simp add: rnd_def)
qed

lemma rnd_eq_0_iff [simp]: "rnd x = 0 \<longleftrightarrow> x = 0"
  using rnd_pos [of x] rnd_neg [of x] by (cases "x = 0") (auto simp: neq_iff)

subsection \<open>Values of type double\<close>

lemma val_B64: "val a \<in> B64"
  using val [of a] .

lemma val_fl [simp]: "val (fl x) = rnd x"
  by (simp add: fl_def Abs_double_inverse rnd_in_B64)

lemma rnd_val [simp]: "rnd (val a) = val a"
  by (rule rnd_id [OF val_B64])

lemma fl_val [simp]: "fl (val a) = a"
  by (simp add: fl_def val_inverse)

lemma fl_eq_iff: "fl x = fl y \<longleftrightarrow> rnd x = rnd y"
proof
  assume "fl x = fl y"
  then have "val (fl x) = val (fl y)" by simp
  then show "rnd x = rnd y" by simp
next
  assume "rnd x = rnd y"
  then show "fl x = fl y" by (simp add: fl_def)
qed

lemma rnd_of_int: "\<bar>i\<bar> < 2 ^ 53 \<Longrightarrow> rnd (of_int i) = of_int i"
  by (rule rnd_id [OF int_in_B64])

lemma rnd_numeral [simp]: "(numeral n :: int) < 2 ^ 53 \<Longrightarrow> rnd (numeral n) = numeral n"
  using rnd_of_int [of "numeral n"] by simp

lemma rnd_1 [simp]: "rnd 1 = 1"
  using rnd_of_int [of 1] by simp

lemma rnd_half [simp]: "rnd (1/2) = 1/2"
  using rnd_id [OF dyadic_in_B64 [of 1 1]] by simp

lemma rnd_three_halves [simp]: "rnd (3/2) = 3/2"
  using rnd_id [OF dyadic_in_B64 [of 3 1]] by simp

lemma unat_in_B64: "real (unat (w :: uint32_t)) \<in> B64"
proof -
  have "int (unat w) < 2 ^ 32"
    using uint_lt2p [of w] by simp
  then have "\<bar>int (unat w)\<bar> < 2 ^ 53"
    by (simp del: of_nat_unat)
  from int_in_B64 [OF this] show ?thesis
    by (simp del: of_nat_unat)
qed

lemma val_to_double: "val (to_double w) = real (unat w)"
  unfolding to_double_def val_fl by (rule rnd_id [OF unat_in_B64])

lemma to_double_nonneg: "0 \<le> val (to_double w)"
  unfolding val_to_double by (rule of_nat_0_le_iff)

lemma val_int_to_double: "\<bar>i\<bar> < 2 ^ 53 \<Longrightarrow> val (int_to_double i) = of_int i"
  by (simp add: int_to_double_def rnd_of_int)

lemma rnd_le_1: "x \<le> 1 \<Longrightarrow> rnd x \<le> 1"
  using rnd_le_pow2 [of x 0] by simp

lemma rnd_ge_1: "1 \<le> x \<Longrightarrow> 1 \<le> rnd x"
  using rnd_ge_pow2 [of 0 x] by simp

lemma rnd_frac:
  assumes "0 \<le> val c"
  shows "rnd (val c - of_int \<lfloor>val c\<rfloor>) = frac (val c)"
  unfolding frac_def by (rule rnd_id [OF frac_in_B64 [OF val_B64 assms]])

text \<open>The roundings that the concrete snapshots of this development go through.\<close>

lemma rnd_facts:
  "rnd (1 / 20) = 3602879701896397 / 72057594037927936"
  "rnd (3602879701896397 / 72057594037927936) = 3602879701896397 / 72057594037927936"
  "rnd (1188950301625811 / 18014398509481984) = 1188950301625811 / 18014398509481984"
  "rnd (900719925474099 / 9007199254740992) = 900719925474099 / 9007199254740992"
  "rnd (1 / 10) = 3602879701896397 / 36028797018963968"
  "rnd (3602879701896397 / 36028797018963968) = 3602879701896397 / 36028797018963968"
  "rnd (1188950301625811 / 9007199254740992) = 1188950301625811 / 9007199254740992"
  "rnd (337769972052787 / 2251799813685248) = 337769972052787 / 2251799813685248"
  "rnd (5404319552844595 / 36028797018963968) = 5404319552844595 / 36028797018963968"
  "rnd (3 / 20) = 5404319552844595 / 36028797018963968"
  "rnd (900719925474099 / 4503599627370496) = 900719925474099 / 4503599627370496"
  "rnd (1 / 5) = 3602879701896397 / 18014398509481984"
  "rnd (3602879701896397 / 18014398509481984) = 3602879701896397 / 18014398509481984"
  "rnd (512922893845607 / 2251799813685248) = 512922893845607 / 2251799813685248"
  "rnd (10808639105689191 / 36028797018963968) = 1351079888211149 / 4503599627370496"
  "rnd (1351079888211149 / 4503599627370496) = 1351079888211149 / 4503599627370496"
  "rnd (3602879701896397 / 9007199254740992) = 3602879701896397 / 9007199254740992"
  "rnd (14411518807585589 / 36028797018963968) = 3602879701896397 / 9007199254740992"
  "rnd (65715007115831415416180825873449 / 162259276829213363391578010288128) = 1823957849085051 / 4503599627370496"
  "rnd (1823957849085051 / 4503599627370496) = 1823957849085051 / 4503599627370496"
  "rnd (8106479329266893 / 18014398509481984) = 8106479329266893 / 18014398509481984"
  "rnd (18014398509481985 / 36028797018963968) = 1 / 2"
  "rnd (5404319552844595 / 9007199254740992) = 5404319552844595 / 9007199254740992"
  "rnd (21617278211378381 / 36028797018963968) = 5404319552844595 / 9007199254740992"
  "rnd (3152519739159347 / 4503599627370496) = 3152519739159347 / 4503599627370496"
  "rnd (25220157913274777 / 36028797018963968) = 3152519739159347 / 4503599627370496"
  "rnd (7205759403792793 / 9007199254740992) = 7205759403792793 / 9007199254740992"
  "rnd (28823037615171173 / 36028797018963968) = 7205759403792793 / 9007199254740992"
  "rnd (4 / 5) = 3602879701896397 / 4503599627370496"
  "rnd (3602879701896397 / 4503599627370496) = 3602879701896397 / 4503599627370496"
  "rnd (2026619832316723 / 2251799813685248) = 2026619832316723 / 2251799813685248"
  "rnd (32425917317067569 / 36028797018963968) = 2026619832316723 / 2251799813685248"
  "rnd (9 / 10) = 8106479329266893 / 9007199254740992"
  "rnd (8106479329266893 / 9007199254740992) = 8106479329266893 / 9007199254740992"
  "rnd (233 / 250) = 8394709705418605 / 9007199254740992"
  "rnd (8394709705418605 / 9007199254740992) = 8394709705418605 / 9007199254740992"
  "rnd (4206362051964043 / 4503599627370496) = 4206362051964043 / 4503599627370496"
  "rnd (16825448207856173 / 18014398509481984) = 4206362051964043 / 4503599627370496"
  "rnd (4278419646001971 / 4503599627370496) = 4278419646001971 / 4503599627370496"
  "rnd (19 / 20) = 4278419646001971 / 4503599627370496"
  "rnd (9007199254740991 / 9007199254740992) = 9007199254740991 / 9007199254740992"
  "rnd (36028797018963965 / 36028797018963968) = 9007199254740991 / 9007199254740992"
  "rnd (2589569785738035 / 2251799813685248) = 2589569785738035 / 2251799813685248"
  "rnd (20716558285904281 / 18014398509481984) = 2589569785738035 / 2251799813685248"
  "rnd (23 / 20) = 2589569785738035 / 2251799813685248"
  "rnd (5016522521216103 / 2251799813685248) = 5016522521216103 / 2251799813685248"
  "rnd (3276800 / 1470879) = 5016522521216103 / 2251799813685248"
  "rnd (8215550882742271 / 8796093022208) = 8215550882742271 / 8796093022208"
  "rnd (525795256495505375 / 562949953421312) = 8215550882742271 / 8796093022208"
proof -
  show "rnd (1 / 20) = 3602879701896397 / 72057594037927936"
    by (subst rnd_eval [where k = "-5"]) (simp_all add: rne_def)
  show "rnd (3602879701896397 / 72057594037927936) = 3602879701896397 / 72057594037927936"
    by (subst rnd_eval [where k = "-5"]) (simp_all add: rne_def)
  show "rnd (1188950301625811 / 18014398509481984) = 1188950301625811 / 18014398509481984"
    by (subst rnd_eval [where k = "-4"]) (simp_all add: rne_def)
  show "rnd (900719925474099 / 9007199254740992) = 900719925474099 / 9007199254740992"
    by (subst rnd_eval [where k = "-4"]) (simp_all add: rne_def)
  show "rnd (1 / 10) = 3602879701896397 / 36028797018963968"
    by (subst rnd_eval [where k = "-4"]) (simp_all add: rne_def)
  show "rnd (3602879701896397 / 36028797018963968) = 3602879701896397 / 36028797018963968"
    by (subst rnd_eval [where k = "-4"]) (simp_all add: rne_def)
  show "rnd (1188950301625811 / 9007199254740992) = 1188950301625811 / 9007199254740992"
    by (subst rnd_eval [where k = "-3"]) (simp_all add: rne_def)
  show "rnd (337769972052787 / 2251799813685248) = 337769972052787 / 2251799813685248"
    by (subst rnd_eval [where k = "-3"]) (simp_all add: rne_def)
  show "rnd (5404319552844595 / 36028797018963968) = 5404319552844595 / 36028797018963968"
    by (subst rnd_eval [where k = "-3"]) (simp_all add: rne_def)
  show "rnd (3 / 20) = 5404319552844595 / 36028797018963968"
    by (subst rnd_eval [where k = "-3"]) (simp_all add: rne_def)
  show "rnd (900719925474099 / 4503599627370496) = 900719925474099 / 4503599627370496"
    by (subst rnd_eval [where k = "-3"]) (simp_all add: rne_def)
  show "rnd (1 / 5) = 3602879701896397 / 18014398509481984"
    by (subst rnd_eval [where k = "-3"]) (simp_all add: rne_def)
  show "rnd (3602879701896397 / 18014398509481984) = 3602879701896397 / 18014398509481984"
    by (subst rnd_eval [where k = "-3"]) (simp_all add: rne_def)
  show "rnd (512922893845607 / 2251799813685248) = 512922893845607 / 2251799813685248"
    by (subst rnd_eval [where k = "-3"]) (simp_all add: rne_def)
  show "rnd (10808639105689191 / 36028797018963968) = 1351079888211149 / 4503599627370496"
    by (subst rnd_eval [where k = "-2"]) (simp_all add: rne_def)
  show "rnd (1351079888211149 / 4503599627370496) = 1351079888211149 / 4503599627370496"
    by (subst rnd_eval [where k = "-2"]) (simp_all add: rne_def)
  show "rnd (3602879701896397 / 9007199254740992) = 3602879701896397 / 9007199254740992"
    by (subst rnd_eval [where k = "-2"]) (simp_all add: rne_def)
  show "rnd (14411518807585589 / 36028797018963968) = 3602879701896397 / 9007199254740992"
    by (subst rnd_eval [where k = "-2"]) (simp_all add: rne_def)
  show "rnd (65715007115831415416180825873449 / 162259276829213363391578010288128) = 1823957849085051 / 4503599627370496"
    by (subst rnd_eval [where k = "-2"]) (simp_all add: rne_def)
  show "rnd (1823957849085051 / 4503599627370496) = 1823957849085051 / 4503599627370496"
    by (subst rnd_eval [where k = "-2"]) (simp_all add: rne_def)
  show "rnd (8106479329266893 / 18014398509481984) = 8106479329266893 / 18014398509481984"
    by (subst rnd_eval [where k = "-2"]) (simp_all add: rne_def)
  show "rnd (18014398509481985 / 36028797018963968) = 1 / 2"
    by (subst rnd_eval [where k = "-1"]) (simp_all add: rne_def)
  show "rnd (5404319552844595 / 9007199254740992) = 5404319552844595 / 9007199254740992"
    by (subst rnd_eval [where k = "-1"]) (simp_all add: rne_def)
  show "rnd (21617278211378381 / 36028797018963968) = 5404319552844595 / 9007199254740992"
    by (subst rnd_eval [where k = "-1"]) (simp_all add: rne_def)
  show "rnd (3152519739159347 / 4503599627370496) = 3152519739159347 / 4503599627370496"
    by (subst rnd_eval [where k = "-1"]) (simp_all add: rne_def)
  show "rnd (25220157913274777 / 36028797018963968) = 3152519739159347 / 4503599627370496"
    by (subst rnd_eval [where k = "-1"]) (simp_all add: rne_def)
  show "rnd (7205759403792793 / 9007199254740992) = 7205759403792793 / 9007199254740992"
    by (subst rnd_eval [where k = "-1"]) (simp_all add: rne_def)
  show "rnd (28823037615171173 / 36028797018963968) = 7205759403792793 / 9007199254740992"
    by (subst rnd_eval [where k = "-1"]) (simp_all add: rne_def)
  show "rnd (4 / 5) = 3602879701896397 / 4503599627370496"
    by (subst rnd_eval [where k = "-1"]) (simp_all add: rne_def)
  show "rnd (3602879701896397 / 4503599627370496) = 3602879701896397 / 4503599627370496"
    by (subst rnd_eval [where k = "-1"]) (simp_all add: rne_def)
  show "rnd (2026619832316723 / 2251799813685248) = 2026619832316723 / 2251799813685248"
    by (subst rnd_eval [where k = "-1"]) (simp_all add: rne_def)
  show "rnd (32425917317067569 / 36028797018963968) = 2026619832316723 / 2251799813685248"
    by (subst rnd_eval [where k = "-1"]) (simp_all add: rne_def)
  show "rnd (9 / 10) = 8106479329266893 / 9007199254740992"
    by (subst rnd_eval [where k = "-1"]) (simp_all add: rne_def)
  show "rnd (8106479329266893 / 9007199254740992) = 8106479329266893 / 9007199254740992"
    by (subst rnd_eval [where k = "-1"]) (simp_all add: rne_def)
  show "rnd (233 / 250) = 8394709705418605 / 9007199254740992"
    by (subst rnd_eval [where k = "-1"]) (simp_all add: rne_def)
  show "rnd (8394709705418605 / 9007199254740992) = 8394709705418605 / 9007199254740992"
    by (subst rnd_eval [where k = "-1"]) (simp_all add: rne_def)
  show "rnd (4206362051964043 / 4503599627370496) = 4206362051964043 / 4503599627370496"
    by (subst rnd_eval [where k = "-1"]) (simp_all add: rne_def)
  show "rnd (16825448207856173 / 18014398509481984) = 4206362051964043 / 4503599627370496"
    by (subst rnd_eval [where k = "-1"]) (simp_all add: rne_def)
  show "rnd (4278419646001971 / 4503599627370496) = 4278419646001971 / 4503599627370496"
    by (subst rnd_eval [where k = "-1"]) (simp_all add: rne_def)
  show "rnd (19 / 20) = 4278419646001971 / 4503599627370496"
    by (subst rnd_eval [where k = "-1"]) (simp_all add: rne_def)
  show "rnd (9007199254740991 / 9007199254740992) = 9007199254740991 / 9007199254740992"
    by (subst rnd_eval [where k = "-1"]) (simp_all add: rne_def)
  show "rnd (36028797018963965 / 36028797018963968) = 9007199254740991 / 9007199254740992"
    by (subst rnd_eval [where k = "-1"]) (simp_all add: rne_def)
  show "rnd (2589569785738035 / 2251799813685248) = 2589569785738035 / 2251799813685248"
    by (subst rnd_eval [where k = "0"]) (simp_all add: rne_def)
  show "rnd (20716558285904281 / 18014398509481984) = 2589569785738035 / 2251799813685248"
    by (subst rnd_eval [where k = "0"]) (simp_all add: rne_def)
  show "rnd (23 / 20) = 2589569785738035 / 2251799813685248"
    by (subst rnd_eval [where k = "0"]) (simp_all add: rne_def)
  show "rnd (5016522521216103 / 2251799813685248) = 5016522521216103 / 2251799813685248"
    by (subst rnd_eval [where k = "1"]) (simp_all add: rne_def)
  show "rnd (3276800 / 1470879) = 5016522521216103 / 2251799813685248"
    by (subst rnd_eval [where k = "1"]) (simp_all add: rne_def)
  show "rnd (8215550882742271 / 8796093022208) = 8215550882742271 / 8796093022208"
    by (subst rnd_eval [where k = "9"]) (simp_all add: rne_def)
  show "rnd (525795256495505375 / 562949953421312) = 8215550882742271 / 8796093022208"
    by (subst rnd_eval [where k = "9"]) (simp_all add: rne_def)
qed

lemmas snapshot_defs =
  effectiveRtt_def MilliSeconds_def Seconds_def IsZero_def GetSeconds_def GetMilliSeconds_def
  trunc_def to_uint32_def fdiv_def GetCwndInSegments_def outstanding_def

lemmas arith_defs =
  fadd_def fsub_def fmul_def fmax_def pow_2_def pow_sq_def int_to_double_def val_to_double

lemmas csf_defs =
  ComputeScalingFactor_def inflightRatio_def rtoRatio_def outstandingFactor_def
  inflightFactor_def rtoFactor_def

subsection \<open>The scaling factor\<close>

lemma inflightRatio_total: "\<exists>r. inflightRatio tcb = Inr r"
  by (simp add: inflightRatio_def fdiv_def Let_def)

lemma fmax_ge: "val b \<le> val (fmax a b)" "val a \<le> val (fmax a b)"
  by (simp_all add: fmax_def)

lemma rtoRatio_total: "\<exists>r. rtoRatio tcb s = Inr r \<and> 1 \<le> val r"
proof -
  have "1 \<le> val (fmax r (fl 1))" for r
    using fmax_ge(1) [of "fl 1" r] by simp
  then show ?thesis
    by (simp add: rtoRatio_def fdiv_def IsZero_def GetSeconds_def Let_def)
qed

lemma outstandingFactor_total:
  "m_segmentSize tcb \<noteq> 0 \<Longrightarrow> \<exists>f. outstandingFactor tcb = Inr f \<and> 0 < val f \<and> val f \<le> 1"
  by (simp add: outstandingFactor_def GetCwndInSegments_def rnd_pos rnd_le_1)

lemma inflightFactor_bounds: "1/2 \<le> val (inflightFactor s r) \<and> val (inflightFactor s r) \<le> 1"
proof (cases "val r > val (m_inFlightThresh s)")
  case False
  then show ?thesis by (simp add: inflightFactor_def)
next
  case True
  define x where "x = fsub (fl 1.0) (fmul (fsub r (m_inFlightThresh s)) (fl 0.5))"
  have "0 \<le> rnd (val r - val (m_inFlightThresh s))"
    using True by (intro rnd_nonneg) simp
  then have "0 \<le> rnd (rnd (val r - val (m_inFlightThresh s)) * (1/2))"
    by (intro rnd_nonneg) simp
  then have "val x \<le> 1"
    unfolding x_def fsub_def fmul_def val_fl by (intro rnd_le_1) simp
  moreover have i: "inflightFactor s r = fmax x (fl 0.5)"
    using True by (simp add: inflightFactor_def x_def)
  moreover have "1/2 \<le> val (fmax x (fl 0.5))"
    using fmax_ge(1) [of "fl 0.5" x] by simp
  moreover have "val (fmax x (fl 0.5)) \<le> 1"
    using \<open>val x \<le> 1\<close> by (simp add: fmax_def)
  ultimately show ?thesis by simp
qed

lemma rtoFactor_total:
  assumes "1 \<le> val rto" and "0 \<le> val (m_rtoScalingFactor s)"
  shows "\<exists>f. rtoFactor s rto = Inr f \<and> 0 < val f \<and> val f \<le> 1"
proof -
  define d where "d = fadd (fl 1.0) (fmul (fsub rto (fl 1.0)) (m_rtoScalingFactor s))"
  have "0 \<le> rnd (val rto - 1)"
    using assms(1) by (intro rnd_nonneg) simp
  then have "0 \<le> rnd (rnd (val rto - 1) * val (m_rtoScalingFactor s))"
    using assms(2) by (intro rnd_nonneg) simp
  then have d1: "1 \<le> val d"
    unfolding d_def fadd_def fmul_def fsub_def val_fl by (intro rnd_ge_1) simp
  then have "val d \<noteq> 0" by linarith
  then have r: "rtoFactor s rto = Inr (fl (1 / val d))"
    by (simp add: rtoFactor_def d_def fdiv_def)
  have "0 < 1 / val d" "1 / val d \<le> 1"
    using d1 by simp_all
  then have "0 < rnd (1 / val d)" "rnd (1 / val d) \<le> 1"
    by (simp_all only: rnd_pos rnd_le_1)
  then show ?thesis
    using r by simp
qed

lemma product_le_one:
  fixes a b c :: real
  assumes "0 \<le> a" "a \<le> 1" "0 \<le> b" "b \<le> 1" "0 \<le> c" "c \<le> 1"
  shows "a * b * c \<le> 1"
proof -
  have "a * b \<le> 1"
    using assms by (simp add: mult_le_one)
  moreover have "0 \<le> a * b"
    using assms by simp
  ultimately show ?thesis
    using assms by (simp add: mult_le_one)
qed

lemma fmul_unit:
  assumes "0 \<le> val a" "val a \<le> 1" "0 \<le> val b" "val b \<le> 1"
  shows "0 \<le> val (fmul a b)" "val (fmul a b) \<le> 1"
proof -
  have "0 \<le> val a * val b" "val a * val b \<le> 1"
    using assms by (simp_all add: mult_le_one)
  then show "0 \<le> val (fmul a b)" "val (fmul a b) \<le> 1"
    unfolding fmul_def val_fl by (simp_all only: rnd_nonneg rnd_le_1)
qed

lemma csf_total:
  assumes mss: "m_segmentSize tcb \<noteq> 0" and k: "0 \<le> val (m_rtoScalingFactor s)"
  shows "\<exists>ratio rto ofac rfac.
           inflightRatio tcb = Inr ratio \<and> rtoRatio tcb s = Inr rto \<and>
           outstandingFactor tcb = Inr ofac \<and> rtoFactor s rto = Inr rfac \<and>
           val (inflightFactor s ratio) * val rfac * val ofac \<le> 1 \<and>
           val (fmul (fmul (inflightFactor s ratio) rfac) ofac) \<le> 1 \<and>
           ComputeScalingFactor tcb s =
             Inr (fmax (fmul (fmul (inflightFactor s ratio) rfac) ofac) (fl 0.5))"
proof -
  obtain ratio where r: "inflightRatio tcb = Inr ratio"
    using inflightRatio_total by blast
  obtain rto where t: "rtoRatio tcb s = Inr rto" "1 \<le> val rto"
    using rtoRatio_total by blast
  obtain ofac where f: "outstandingFactor tcb = Inr ofac" "0 < val ofac" "val ofac \<le> 1"
    using outstandingFactor_total [OF mss] by blast
  obtain rfac where g: "rtoFactor s rto = Inr rfac" "0 < val rfac" "val rfac \<le> 1"
    using rtoFactor_total [OF t(2) k] by blast
  have i: "0 \<le> val (inflightFactor s ratio)" "val (inflightFactor s ratio) \<le> 1"
    using inflightFactor_bounds [of s ratio] by simp_all
  have "val (inflightFactor s ratio) * val rfac * val ofac \<le> 1"
    using i f g by (intro product_le_one) simp_all
  moreover have "0 \<le> val (fmul (inflightFactor s ratio) rfac)"
    "val (fmul (inflightFactor s ratio) rfac) \<le> 1"
    using i g by (simp_all add: fmul_unit)
  then have "val (fmul (fmul (inflightFactor s ratio) rfac) ofac) \<le> 1"
    using f fmul_unit(2) [of "fmul (inflightFactor s ratio) rfac" ofac] by simp
  ultimately show ?thesis
    using r t f g by (simp add: ComputeScalingFactor_def)
qed

lemma csf_bounds:
  assumes "m_segmentSize tcb \<noteq> 0" and "0 \<le> val (m_rtoScalingFactor s)"
  shows "\<exists>f. ComputeScalingFactor tcb s = Inr f \<and> 1/2 \<le> val f \<and> val f \<le> 1"
proof -
  from csf_total [OF assms] obtain p where
    p: "val p \<le> 1" "ComputeScalingFactor tcb s = Inr (fmax p (fl 0.5))"
    by blast
  have "1/2 \<le> val (fmax p (fl 0.5))"
    using fmax_ge(1) [of "fl 0.5" p] by simp
  moreover have "val (fmax p (fl 0.5)) \<le> 1"
    using p(1) by (simp add: fmax_def)
  ultimately show ?thesis using p(2) by simp
qed

text \<open>
  C1. For every snapshot and every controller state, \<^verbatim>\<open>ComputeScalingFactor\<close> returns a
  value in the closed interval from 0.5 to 1.0: the product of \<open>inflightFactor\<close>,
  \<open>rtoFactor\<close> and \<open>outstandingFactor\<close> never exceeds 1.0, as an exact product and as the
  \<^verbatim>\<open>double\<close> the code computes, and the result is that \<^verbatim>\<open>double\<close> clamped below at 0.5. A
  snapshot has a segment size other than zero (the segment count divides by it), and a
  controller state has \<open>rtoScalingFactor \<ge> 0\<close>, the range the attribute checker of
  \<^verbatim>\<open>GetTypeId\<close> enforces. The reference RTT plays no part in the factor.
\<close>

theorem ComputeScalingFactor_range:
  assumes "m_segmentSize tcb \<noteq> 0" and "0 \<le> val (m_rtoScalingFactor s)"
  shows "\<exists>f. ComputeScalingFactor tcb s = Inr f \<and> 1/2 \<le> val f \<and> val f \<le> 1 \<and>
           (\<exists>ratio rto ofac rfac.
              inflightRatio tcb = Inr ratio \<and> rtoRatio tcb s = Inr rto \<and>
              outstandingFactor tcb = Inr ofac \<and> rtoFactor s rto = Inr rfac \<and>
              val (inflightFactor s ratio) * val rfac * val ofac \<le> 1 \<and>
              val (fmul (fmul (inflightFactor s ratio) rfac) ofac) \<le> 1 \<and>
              f = fmax (fmul (fmul (inflightFactor s ratio) rfac) ofac) (fl 0.5))"
proof -
  from csf_bounds [OF assms] obtain f where
    f: "ComputeScalingFactor tcb s = Inr f" "1/2 \<le> val f" "val f \<le> 1"
    by blast
  from csf_total [OF assms] f(1) have
    "\<exists>ratio rto ofac rfac.
              inflightRatio tcb = Inr ratio \<and> rtoRatio tcb s = Inr rto \<and>
              outstandingFactor tcb = Inr ofac \<and> rtoFactor s rto = Inr rfac \<and>
              val (inflightFactor s ratio) * val rfac * val ofac \<le> 1 \<and>
              val (fmul (fmul (inflightFactor s ratio) rfac) ofac) \<le> 1 \<and>
              f = fmax (fmul (fmul (inflightFactor s ratio) rfac) ofac) (fl 0.5)"
    by auto
  then show ?thesis using f by blast
qed

lemma busy_ratio: "inflightRatio tcb_busy = Inr (fl 1)"
  by (simp add: tcb_busy_def inflightRatio_def fdiv_def val_to_double)

lemma busy_rto: "rtoRatio tcb_busy ctl_busy = Inr (fl 2)"
  by (simp add: tcb_busy_def ctl_busy_def TcpHyblaI_ctor_def rtoRatio_def snapshot_defs arith_defs rnd_facts)

lemma busy_ofac: "outstandingFactor tcb_busy = Inr (fl 0.9)"
  by (simp add: tcb_busy_def outstandingFactor_def snapshot_defs)

lemma busy_ifac: "inflightFactor ctl_busy (fl 1) = fl 0.9"
  by (simp add: ctl_busy_def TcpHyblaI_ctor_def inflightFactor_def arith_defs rnd_facts fl_eq_iff)

lemma busy_rfac: "rtoFactor ctl_busy (fl 2) = Inr (fl 0.5)"
  by (simp add: ctl_busy_def TcpHyblaI_ctor_def rtoFactor_def fdiv_def arith_defs rnd_facts fl_eq_iff)

lemma busy_csf: "ComputeScalingFactor tcb_busy ctl_busy = Inr (fl 0.5)"
  by (simp add: ComputeScalingFactor_def busy_ratio busy_rto busy_ofac busy_ifac busy_rfac
        arith_defs rnd_facts fl_eq_iff)

text \<open>
  On the saturated connection the in-flight factor is 0.9, the RTO factor 0.5 and the
  outstanding factor 0.9; the product, a little over 0.4, is clamped to 0.5.
\<close>

theorem ComputeScalingFactor_range_witness:
  "m_segmentSize tcb_busy \<noteq> 0 \<and> 0 \<le> val (m_rtoScalingFactor ctl_busy) \<and>
   ComputeScalingFactor tcb_busy ctl_busy = Inr (fl (1/2))"
  using ComputeScalingFactor_range [where tcb = tcb_busy and s = ctl_busy] busy_csf
  by (simp add: tcb_busy_def ctl_busy_def TcpHyblaI_ctor_def)

text \<open>
  C7. \<^verbatim>\<open>ComputeScalingFactor\<close> is total on the edge cases \<open>congestionWindow = 0\<close> and
  \<open>smoothedRtt = 0\<close>. With a window of zero the in-flight ratio falls back to 0, with a
  smoothed RTT of zero the RTO ratio falls back to 1.0, and no floating division by
  zero occurs in the function for any snapshot (\<open>rtoScalingFactor \<ge> 0\<close> keeps the
  denominator of the RTO factor at 1 or above). The only fault the function can end in
  is the integer division of the host's \<^verbatim>\<open>GetCwndInSegments\<close> by a segment size of
  zero. In both edge cases, for a segment size other than zero, the function returns a
  factor between 0.5 and 1.0.
\<close>

theorem ComputeScalingFactor_edge_cases:
  assumes "0 \<le> val (m_rtoScalingFactor s)"
  shows "(m_cWnd tcb = 0 \<longrightarrow> inflightRatio tcb = Inr (fl 0)) \<and>
         (IsZero (m_sRtt s) \<longrightarrow> rtoRatio tcb s = Inr (fl 1)) \<and>
         ComputeScalingFactor tcb s \<noteq> Inl FloatDivByZero \<and>
         (ComputeScalingFactor tcb s = Inl e \<longrightarrow> e = IntDivByZero \<and> m_segmentSize tcb = 0) \<and>
         ((m_cWnd tcb = 0 \<or> IsZero (m_sRtt s)) \<and> m_segmentSize tcb \<noteq> 0 \<longrightarrow>
            (\<exists>f. ComputeScalingFactor tcb s = Inr f \<and> 1/2 \<le> val f \<and> val f \<le> 1))"
proof -
  have a: "m_cWnd tcb = 0 \<longrightarrow> inflightRatio tcb = Inr (fl 0)"
    by (simp add: inflightRatio_def val_to_double)
  have b: "IsZero (m_sRtt s) \<longrightarrow> rtoRatio tcb s = Inr (fl 1)"
    by (simp add: rtoRatio_def fmax_def)
  have c: "ComputeScalingFactor tcb s \<noteq> Inl FloatDivByZero \<and>
         (ComputeScalingFactor tcb s = Inl e \<longrightarrow> e = IntDivByZero \<and> m_segmentSize tcb = 0)"
  proof (cases "m_segmentSize tcb = 0")
    case True
    obtain ratio where "inflightRatio tcb = Inr ratio"
      using inflightRatio_total by blast
    moreover obtain rto where "rtoRatio tcb s = Inr rto"
      using rtoRatio_total by blast
    moreover have "outstandingFactor tcb = Inl IntDivByZero"
      using True by (simp add: outstandingFactor_def GetCwndInSegments_def)
    ultimately show ?thesis
      using True by (simp add: ComputeScalingFactor_def)
  next
    case False
    then show ?thesis
      using csf_bounds [OF False assms] by auto
  qed
  have d: "(m_cWnd tcb = 0 \<or> IsZero (m_sRtt s)) \<and> m_segmentSize tcb \<noteq> 0 \<longrightarrow>
            (\<exists>f. ComputeScalingFactor tcb s = Inr f \<and> 1/2 \<le> val f \<and> val f \<le> 1)"
    using csf_bounds [OF _ assms] by blast
  show ?thesis
    using a b c d by blast
qed

lemma empty_csf: "ComputeScalingFactor tcb_empty TcpHyblaI_ctor = Inr (fl (9/10))"
  by (simp add: tcb_empty_def TcpHyblaI_ctor_def csf_defs snapshot_defs arith_defs rnd_facts
        fl_eq_iff)

text \<open>
  The window of zero with nothing yet sampled by the controller: both fallbacks apply,
  two segments are outstanding against a window of none, and the factor is 0.9.
\<close>

theorem ComputeScalingFactor_edge_cases_witness:
  "0 \<le> val (m_rtoScalingFactor TcpHyblaI_ctor) \<and> m_cWnd tcb_empty = 0 \<and>
   IsZero (m_sRtt TcpHyblaI_ctor) \<and> m_segmentSize tcb_empty \<noteq> 0 \<and>
   inflightRatio tcb_empty = Inr (fl 0) \<and> rtoRatio tcb_empty TcpHyblaI_ctor = Inr (fl 1) \<and>
   ComputeScalingFactor tcb_empty TcpHyblaI_ctor = Inr (fl (9/10))"
  using ComputeScalingFactor_edge_cases [where s = TcpHyblaI_ctor and tcb = tcb_empty] empty_csf
  by (simp add: tcb_empty_def TcpHyblaI_ctor_def snapshot_defs)

subsection \<open>The recalculation of rho\<close>

lemma int_to_double_eq_0 [simp]: "val (int_to_double i) = 0 \<longleftrightarrow> i = 0"
  by (simp add: int_to_double_def)

lemma recalc_value:
  assumes "0 < GetMilliSeconds (m_rRtt s)"
  shows "HyblaIRecalcParam tcb s =
           Inr (s\<lparr>m_rho := fmax (fl (val (int_to_double (GetMilliSeconds (effectiveRtt tcb s))) /
                                      val (int_to_double (GetMilliSeconds (m_rRtt s)))))
                                  (fl 1)\<rparr>)"
proof -
  have "0 < val (fmax c (fl 1))" for c
    using fmax_ge(1) [of "fl 1" c] by simp
  then show ?thesis
    using assms by (simp add: HyblaIRecalcParam_def fdiv_def Let_def)
qed

lemma recalc_rho_ge_one:
  "HyblaIRecalcParam tcb s = Inr s' \<Longrightarrow> 1 \<le> val (m_rho s')"
  using fmax_ge(1) [of "fl 1"]
  by (auto simp: HyblaIRecalcParam_def fdiv_def Let_def and_then_def split: if_splits)

lemma recalc_fields:
  assumes "HyblaIRecalcParam tcb s = Inr s'"
  shows "m_sRtt s' = m_sRtt s" and "m_alpha s' = m_alpha s"
    and "m_inFlightThresh s' = m_inFlightThresh s"
    and "m_rtoScalingFactor s' = m_rtoScalingFactor s"
    and "m_rRtt s' = m_rRtt s" and "m_cWndCnt s' = m_cWndCnt s"
  using assms
  by (auto simp: HyblaIRecalcParam_def fdiv_def Let_def and_then_def split: if_splits)

lemma pkts_rho:
  "PktsAcked tcb n rtt s = Inr (tcb', s') \<Longrightarrow> 1 \<le> val (m_rho s) \<Longrightarrow> 1 \<le> val (m_rho s')"
  by (auto simp: PktsAcked_def Let_def and_then_def split: if_splits sum.splits dest: recalc_rho_ge_one)

lemma pkts_rho_same:
  "PktsAcked tcb n rtt s = Inr (tcb', s') \<Longrightarrow> rtt \<noteq> m_minRtt tcb \<Longrightarrow> m_rho s' = m_rho s"
  by (auto simp: PktsAcked_def Let_def split: if_splits)

lemma pkts_cnt:
  "PktsAcked tcb n rtt s = Inr (tcb', s') \<Longrightarrow> m_cWndCnt s' = m_cWndCnt s"
  by (auto simp: PktsAcked_def Let_def and_then_def split: if_splits sum.splits dest: recalc_fields(6))

lemma slow_state: "SlowStart tcb n s = Inr (tcb', s', r) \<Longrightarrow> s' = s"
  by (auto simp: SlowStart_def Let_def and_then_def split: if_splits sum.splits)

subsection \<open>The loop of the congestion-avoidance step\<close>

lemma ca_increment_cnt [simp]:
  "ca_increment tcb (s\<lparr>m_cWndCnt := c\<rparr>) = ca_increment tcb s"
  by (simp add: ca_increment_def)

lemma funpow_fadd:
  "((\<lambda>c. fadd c x) ^^ n) (fadd a x) = fadd (((\<lambda>c. fadd c x) ^^ n) a) x"
  using funpow_swap1 [of "\<lambda>c. fadd c x" n a] by simp

lemma ca_loop_result:
  "ca_loop n tcb s = Inr s1 \<Longrightarrow>
     s1 = s\<lparr>m_cWndCnt := ((\<lambda>c. fadd c (ca_increment tcb s)) ^^ n) (m_cWndCnt s)\<rparr>"
proof (induction n arbitrary: s)
  case 0
  then show ?case by simp
next
  case (Suc n)
  from Suc.prems obtain seg x where
    seg: "GetCwndInSegments tcb = Inr seg" and
    x: "fdiv (pow_sq (m_rho s)) (to_double seg) = Inr x" and
    rest: "ca_loop n tcb (s\<lparr>m_cWndCnt := fadd (m_cWndCnt s) x\<rparr>) = Inr s1"
    by (auto simp: and_then_def split: sum.splits)
  have "seg = m_cWnd tcb div m_segmentSize tcb"
    using seg by (simp add: GetCwndInSegments_def split: if_splits)
  then have xi: "x = ca_increment tcb s"
    using x by (simp add: fdiv_def ca_increment_def split: if_splits)
  have "s1 = s\<lparr>m_cWndCnt := ((\<lambda>c. fadd c (ca_increment tcb s)) ^^ n) (fadd (m_cWndCnt s) x)\<rparr>"
    using Suc.IH [OF rest] by simp
  then show ?case
    by (simp add: xi funpow_fadd)
qed

lemma segments_nonzero:
  fixes w m :: uint32_t
  assumes "m \<noteq> 0" and "m \<le> w"
  shows "val (to_double (w div m)) \<noteq> 0"
proof -
  have "0 < unat m" using assms(1) by (simp add: unat_gt_0)
  moreover have "unat m \<le> unat w" using assms(2) by (simp add: word_le_nat_alt)
  ultimately have "0 < unat w div unat m" by (simp add: div_greater_zero_iff)
  then show ?thesis by (simp add: val_to_double unat_div)
qed

lemma ca_loop_total:
  assumes "m_segmentSize tcb \<noteq> 0" and "m_segmentSize tcb \<le> m_cWnd tcb"
  shows "ca_loop n tcb s =
           Inr (s\<lparr>m_cWndCnt := ((\<lambda>c. fadd c (ca_increment tcb s)) ^^ n) (m_cWndCnt s)\<rparr>)"
proof (induction n arbitrary: s)
  case 0
  then show ?case by simp
next
  case (Suc n)
  have "val (to_double (m_cWnd tcb div m_segmentSize tcb)) \<noteq> 0"
    using assms by (rule segments_nonzero)
  then have "ca_loop (Suc n) tcb s =
      ca_loop n tcb (s\<lparr>m_cWndCnt := fadd (m_cWndCnt s) (ca_increment tcb s)\<rparr>)"
    using assms(1) by (simp add: GetCwndInSegments_def fdiv_def ca_increment_def)
  then show ?case
    by (simp add: Suc.IH funpow_fadd)
qed

lemma cong_frame:
  "CongestionAvoidance tcb n s = Inr (tcb', s') \<Longrightarrow> s' = s\<lparr>m_cWndCnt := m_cWndCnt s'\<rparr>"
  by (auto simp: CongestionAvoidance_def Let_def and_then_def split: if_splits sum.splits dest!: ca_loop_result)

lemma cong_rho: "CongestionAvoidance tcb n s = Inr (tcb', s') \<Longrightarrow> m_rho s' = m_rho s"
  by (drule cong_frame) (metis TcpHyblaI.select_convs(6) TcpHyblaI.surjective TcpHyblaI.update_convs(7))

subsection \<open>Invariants of the reachable states\<close>

lemma reachable_rho: "reachable s \<Longrightarrow> 1 \<le> val (m_rho s)"
proof (induction rule: reachable.induct)
  case ctor
  then show ?case by (simp add: TcpHyblaI_ctor_def)
next
  case (fork s)
  then show ?case by (simp add: Fork_def)
next
  case (pkts s tcb n rtt tcb' s')
  then show ?case by (auto dest: pkts_rho)
next
  case (slow s tcb n tcb' s' r)
  then show ?case by (auto dest: slow_state)
next
  case (cong s tcb n tcb' s')
  then show ?case by (auto dest: cong_rho)
qed simp_all

lemma reachable_rRtt: "reachable s \<Longrightarrow> m_rRtt s = MilliSeconds 50"
proof (induction rule: reachable.induct)
  case ctor
  then show ?case by (simp add: TcpHyblaI_ctor_def)
next
  case (fork s)
  then show ?case by (simp add: Fork_def)
next
  case (pkts s tcb n rtt tcb' s')
  then show ?case
    by (auto simp: PktsAcked_def Let_def and_then_def split: if_splits sum.splits
             dest: recalc_fields(5))
next
  case (slow s tcb n tcb' s' r)
  then show ?case by (auto dest: slow_state)
next
  case (cong s tcb n tcb' s')
  from cong_frame [OF cong.hyps(2)] have "m_rRtt s' = m_rRtt s"
    by (metis TcpHyblaI.select_convs(5) TcpHyblaI.surjective TcpHyblaI.update_convs(7))
  then show ?case using cong.IH by simp
qed simp_all

lemma ms_50: "GetMilliSeconds (MilliSeconds 50) = 50"
  by (simp add: GetMilliSeconds_def MilliSeconds_def trunc_def)

subsection \<open>RTT smoothing and the effective RTT\<close>

text \<open>
  C4, as stated, fails: \<open>rho\<close> is not \<open>max(effectiveRtt / referenceRtt, 1.0)\<close> but the same
  with both durations cut to whole milliseconds. On a connection whose minimum RTT is
  68 ms, a first sample of 104 ms and a second of 68 ms leave a smoothed RTT of a little
  over 100.4 ms, which is the effective RTT (not the minimum RTT); with the reference RTT
  of 50 ms the code computes \<open>rho = 100 / 50 = 2\<close>, while the quotient of the durations is
  above 2.008.
\<close>

theorem rho_effective_rtt_counterexample:
  "PktsAcked tcb_path 1 (MilliSeconds 104) TcpHyblaI_ctor = Inr (tcb_path, ctl_path) \<and>
   PktsAcked tcb_path 1 (MilliSeconds 68) ctl_path =
     Inr (tcb_path, ctl_path\<lparr>m_sRtt := srtt_path, m_rho := fl 2\<rparr>) \<and>
   HyblaIRecalcParam tcb_path (ctl_path\<lparr>m_sRtt := srtt_path\<rparr>) =
     Inr (ctl_path\<lparr>m_sRtt := srtt_path, m_rho := fl 2\<rparr>) \<and>
   val (fl 2) = 2 \<and>
   0 < m_rRtt (ctl_path\<lparr>m_sRtt := srtt_path\<rparr>) \<and>
   effectiveRtt tcb_path (ctl_path\<lparr>m_sRtt := srtt_path\<rparr>) = srtt_path \<and>
   max (effectiveRtt tcb_path (ctl_path\<lparr>m_sRtt := srtt_path\<rparr>) /
        m_rRtt (ctl_path\<lparr>m_sRtt := srtt_path\<rparr>)) 1 =
     226080701293998901 / 112589990684262400"
  by (simp add: PktsAcked_def HyblaIRecalcParam_def tcb_path_def ctl_path_def srtt_path_def
        TcpHyblaI_ctor_def snapshot_defs arith_defs rnd_facts fl_eq_iff)


text \<open>
  C4, amended. \<open>rho\<close> is at least 1.0 in every reachable controller state. The
  constructor sets it to 1.0. Every call of \<^verbatim>\<open>HyblaIRecalcParam\<close> that returns leaves
  \<open>rho \<ge> 1\<close>, and the call returns whenever the reference RTT is at least one whole
  millisecond, for any other RTTs: \<open>rho\<close> is then the maximum of 1.0 and the quotient, a
  \<^verbatim>\<open>double\<close>, of the whole milliseconds of the effective RTT by the whole milliseconds
  of the reference RTT, where the effective RTT is the minimum RTT of the connection
  while the smoothed RTT is zero and the smoothed RTT afterwards. No other operation
  modifies \<open>rho\<close>: \<^verbatim>\<open>PktsAcked\<close> changes it only through \<^verbatim>\<open>HyblaIRecalcParam\<close> (when the
  sample equals the minimum RTT), \<^verbatim>\<open>SlowStart\<close>, \<^verbatim>\<open>CongestionAvoidance\<close> and \<^verbatim>\<open>Fork\<close>
  leave it as it is. The reference RTT of a reachable state is the constructor's 50 ms
  (the class registers no attribute for it), so in a reachable state the recalculation
  always returns.
\<close>

theorem rho_at_least_one:
  "val (m_rho TcpHyblaI_ctor) = 1 \<and>
   (HyblaIRecalcParam tcb s = Inr u \<longrightarrow> 1 \<le> val (m_rho u)) \<and>
   (0 < GetMilliSeconds (m_rRtt s) \<longrightarrow>
      (\<exists>s'. HyblaIRecalcParam tcb s = Inr s' \<and>
            m_rho s' =
              fmax (fl (val (int_to_double
                              (GetMilliSeconds (if IsZero (m_sRtt s) then m_minRtt tcb
                                                else m_sRtt s))) /
                        val (int_to_double (GetMilliSeconds (m_rRtt s)))))
                   (fl 1) \<and>
            1 \<le> val (m_rho s'))) \<and>
   (reachable c \<longrightarrow>
      1 \<le> val (m_rho c) \<and> m_rRtt c = MilliSeconds 50 \<and>
      (\<exists>c'. HyblaIRecalcParam tcb c = Inr c' \<and> 1 \<le> val (m_rho c'))) \<and>
   (PktsAcked tcb n rtt s = Inr (tcbP, sP) \<and> rtt \<noteq> m_minRtt tcb \<longrightarrow> m_rho sP = m_rho s) \<and>
   (SlowStart tcb n s = Inr (tcbS, sS, r) \<longrightarrow> m_rho sS = m_rho s) \<and>
   (CongestionAvoidance tcb n s = Inr (tcbC, sC) \<longrightarrow> m_rho sC = m_rho s) \<and>
   m_rho (Fork s) = m_rho s"
proof -
  have a: "val (m_rho TcpHyblaI_ctor) = 1"
    by (simp add: TcpHyblaI_ctor_def)
  have a': "HyblaIRecalcParam tcb s = Inr u \<longrightarrow> 1 \<le> val (m_rho u)"
    by (auto dest: recalc_rho_ge_one)
  have b: "0 < GetMilliSeconds (m_rRtt s) \<longrightarrow>
      (\<exists>s'. HyblaIRecalcParam tcb s = Inr s' \<and>
            m_rho s' =
              fmax (fl (val (int_to_double
                              (GetMilliSeconds (if IsZero (m_sRtt s) then m_minRtt tcb
                                                else m_sRtt s))) /
                        val (int_to_double (GetMilliSeconds (m_rRtt s)))))
                   (fl 1) \<and>
            1 \<le> val (m_rho s'))"
  proof
    assume p: "0 < GetMilliSeconds (m_rRtt s)"
    have "1 \<le> val (fmax x (fl 1))" for x
      using fmax_ge(1) [of "fl 1" x] by simp
    then show "\<exists>s'. HyblaIRecalcParam tcb s = Inr s' \<and>
            m_rho s' =
              fmax (fl (val (int_to_double
                              (GetMilliSeconds (if IsZero (m_sRtt s) then m_minRtt tcb
                                                else m_sRtt s))) /
                        val (int_to_double (GetMilliSeconds (m_rRtt s)))))
                   (fl 1) \<and>
            1 \<le> val (m_rho s')"
      using recalc_value [OF p, of tcb] by (simp add: effectiveRtt_def)
  qed
  have c: "reachable c \<longrightarrow>
      1 \<le> val (m_rho c) \<and> m_rRtt c = MilliSeconds 50 \<and>
      (\<exists>c'. HyblaIRecalcParam tcb c = Inr c' \<and> 1 \<le> val (m_rho c'))"
  proof
    assume r: "reachable c"
    then have m: "m_rRtt c = MilliSeconds 50" by (rule reachable_rRtt)
    then have "0 < GetMilliSeconds (m_rRtt c)" by (simp add: ms_50)
    from recalc_value [OF this, of tcb] obtain c' where c': "HyblaIRecalcParam tcb c = Inr c'"
      by blast
    then have "1 \<le> val (m_rho c')" by (rule recalc_rho_ge_one)
    then show "1 \<le> val (m_rho c) \<and> m_rRtt c = MilliSeconds 50 \<and>
      (\<exists>c'. HyblaIRecalcParam tcb c = Inr c' \<and> 1 \<le> val (m_rho c'))"
      using reachable_rho [OF r] m c' by blast
  qed
  have d: "PktsAcked tcb n rtt s = Inr (tcbP, sP) \<and> rtt \<noteq> m_minRtt tcb \<longrightarrow> m_rho sP = m_rho s"
    by (auto dest: pkts_rho_same)
  have e: "SlowStart tcb n s = Inr (tcbS, sS, r) \<longrightarrow> m_rho sS = m_rho s"
    by (auto dest: slow_state)
  have f: "CongestionAvoidance tcb n s = Inr (tcbC, sC) \<longrightarrow> m_rho sC = m_rho s"
    by (auto dest: cong_rho)
  have g: "m_rho (Fork s) = m_rho s"
    by (simp add: Fork_def)
  show ?thesis
    using a a' b c d e f g by blast
qed

lemma pkts_slow_sample:
  "PktsAcked tcb_busy 1 (MilliSeconds 150) TcpHyblaI_ctor = Inr (tcb_busy, ctl_slow)"
  by (simp add: PktsAcked_def tcb_busy_def ctl_slow_def TcpHyblaI_ctor_def snapshot_defs)

lemma recalc_slow:
  "HyblaIRecalcParam tcb_busy ctl_slow = Inr (ctl_slow\<lparr>m_rho := fl 3\<rparr>)"
  by (simp add: HyblaIRecalcParam_def tcb_busy_def ctl_slow_def TcpHyblaI_ctor_def snapshot_defs
        arith_defs fl_eq_iff)

lemma recalc_fresh:
  "HyblaIRecalcParam tcb_busy TcpHyblaI_ctor = Inr (TcpHyblaI_ctor\<lparr>m_rho := fl 2\<rparr>)"
  by (simp add: HyblaIRecalcParam_def tcb_busy_def TcpHyblaI_ctor_def snapshot_defs
        arith_defs fl_eq_iff)

text \<open>
  A controller whose smoothed RTT is 150 ms, on a connection whose minimum RTT is
  100 ms: the state is reached from the constructor by a first sample of 150 ms, the
  effective RTT is the smoothed RTT, and the recalculation gives \<open>rho = 150 / 50 = 3\<close>.
  In the state the constructor builds the smoothed RTT is zero, the effective RTT is the
  minimum RTT, and the recalculation gives \<open>rho = 100 / 50 = 2\<close>.
\<close>

theorem rho_at_least_one_witness:
  "reachable ctl_slow \<and> 0 < GetMilliSeconds (m_rRtt ctl_slow) \<and>
   \<not> IsZero (m_sRtt ctl_slow) \<and> m_sRtt ctl_slow \<noteq> m_minRtt tcb_busy \<and>
   HyblaIRecalcParam tcb_busy ctl_slow = Inr (ctl_slow\<lparr>m_rho := fl 3\<rparr>) \<and>
   val (m_rho (ctl_slow\<lparr>m_rho := fl 3\<rparr>)) = 3 \<and> val (m_rho ctl_slow) = 1 \<and>
   reachable TcpHyblaI_ctor \<and> 0 < GetMilliSeconds (m_rRtt TcpHyblaI_ctor) \<and>
   IsZero (m_sRtt TcpHyblaI_ctor) \<and>
   HyblaIRecalcParam tcb_busy TcpHyblaI_ctor = Inr (TcpHyblaI_ctor\<lparr>m_rho := fl 2\<rparr>) \<and>
   val (m_rho (TcpHyblaI_ctor\<lparr>m_rho := fl 2\<rparr>)) = 2"
proof -
  have f: "0 < GetMilliSeconds (m_rRtt TcpHyblaI_ctor)"
    "IsZero (m_sRtt TcpHyblaI_ctor)" "val (m_rho (TcpHyblaI_ctor\<lparr>m_rho := fl 2\<rparr>)) = 2"
    by (simp_all add: TcpHyblaI_ctor_def ms_50 IsZero_def Seconds_def)
  have r: "reachable ctl_slow"
    using reachable.pkts [OF reachable.ctor pkts_slow_sample] .
  have m: "0 < GetMilliSeconds (m_rRtt ctl_slow)"
    by (simp add: ctl_slow_def TcpHyblaI_ctor_def ms_50)
  have z: "\<not> IsZero (m_sRtt ctl_slow)" "m_sRtt ctl_slow \<noteq> m_minRtt tcb_busy"
    by (simp_all add: ctl_slow_def tcb_busy_def TcpHyblaI_ctor_def snapshot_defs)
  have v: "val (m_rho (ctl_slow\<lparr>m_rho := fl 3\<rparr>)) = 3" "val (m_rho ctl_slow) = 1"
    by (simp_all add: ctl_slow_def TcpHyblaI_ctor_def)
  show ?thesis
    using r m z v f reachable.ctor recalc_slow recalc_fresh
      rho_at_least_one [where s = ctl_slow and tcb = tcb_busy and c = ctl_slow
        and u = "ctl_slow\<lparr>m_rho := fl 3\<rparr>" and n = 1 and rtt = "MilliSeconds 150"
        and tcbP = tcb_busy and sP = ctl_slow and tcbS = tcb_busy and sS = ctl_slow and r = 0
        and tcbC = tcb_busy and sC = ctl_slow]
    by blast
qed

lemma pkts_unfold:
  "PktsAcked tcb segmentsAcked rtt s =
     (let s1 = s\<lparr>m_sRtt := (if m_sRtt s = 0 then rtt
                               else val (m_alpha s) * m_sRtt s +
                                    val (fsub (fl 1) (m_alpha s)) * rtt)\<rparr>
      in if rtt = m_minRtt tcb then and_then (HyblaIRecalcParam tcb s1) (\<lambda>s2. Inr (tcb, s2))
         else Inr (tcb, s1))"
  by (simp add: PktsAcked_def Let_def Seconds_def algebra_simps)

lemma one_minus_exact:
  assumes "1/2 \<le> val a" and "val a \<le> 1"
  shows "val (fsub (fl 1) a) = 1 - val a"
  unfolding fsub_def val_fl rnd_1 by (rule rnd_id [OF one_minus_in_B64 [OF val_B64 assms]])

lemma one_minus_error:
  assumes "0 \<le> val a" and "val a \<le> 1"
  shows "\<bar>val (fsub (fl 1) a) - (1 - val a)\<bar> \<le> 1 / 2 ^ 54"
  unfolding fsub_def val_fl rnd_1 using assms by (intro rnd_error_unit) simp_all


lemma pkts_first_sample:
  "PktsAcked tcb_busy 1 (MilliSeconds 100) TcpHyblaI_ctor =
     Inr (tcb_busy, TcpHyblaI_ctor\<lparr>m_sRtt := MilliSeconds 100, m_rho := fl 2\<rparr>)"
  by (simp add: PktsAcked_def HyblaIRecalcParam_def tcb_busy_def TcpHyblaI_ctor_def snapshot_defs
        arith_defs fl_eq_iff)


lemma recalc_sub_ms:
  "HyblaIRecalcParam tcb_sub_ms ctl_sub_ms = Inr (ctl_sub_ms\<lparr>m_rho := fl (3/2)\<rparr>)"
  by (simp add: HyblaIRecalcParam_def tcb_sub_ms_def ctl_sub_ms_def TcpHyblaI_ctor_def
        snapshot_defs arith_defs fl_eq_iff)

text \<open>
  C10, as stated, fails: \<^verbatim>\<open>HyblaIRecalcParam\<close> reads both durations with
  \<^verbatim>\<open>GetMilliSeconds\<close>, which drops what is below a millisecond. For an effective RTT of
  75.5 ms and the reference RTT of 50 ms the code computes \<open>75 / 50 = 1.5\<close>, while the
  quotient of the full-precision durations is 1.51.
\<close>

theorem rho_sub_millisecond_counterexample:
  "HyblaIRecalcParam tcb_sub_ms ctl_sub_ms = Inr (ctl_sub_ms\<lparr>m_rho := fl (3/2)\<rparr>) \<and>
   val (fl (3/2)) = 3/2 \<and>
   max (effectiveRtt tcb_sub_ms ctl_sub_ms / m_rRtt ctl_sub_ms) 1 = 151/100"
  using recalc_sub_ms
  by (simp add: tcb_sub_ms_def ctl_sub_ms_def TcpHyblaI_ctor_def snapshot_defs)

text \<open>
  C10, amended. \<^verbatim>\<open>HyblaIRecalcParam\<close> computes \<open>candidateRho\<close> as the quotient, a
  \<^verbatim>\<open>double\<close>, of the whole-millisecond counts of the effective RTT and of the reference
  RTT (for a duration that is not negative, the floor of its value in milliseconds),
  for a reference RTT of at least one millisecond. What the two durations hold below the
  millisecond is discarded: two calls whose durations agree in whole milliseconds yield
  the same \<open>rho\<close>.
\<close>

theorem rho_whole_milliseconds:
  assumes "0 < GetMilliSeconds (m_rRtt s)"
  shows "HyblaIRecalcParam tcb s =
           Inr (s\<lparr>m_rho := fmax (fl (val (int_to_double (GetMilliSeconds (effectiveRtt tcb s))) /
                                      val (int_to_double (GetMilliSeconds (m_rRtt s)))))
                                  (fl 1)\<rparr>) \<and>
         (\<bar>GetMilliSeconds (effectiveRtt tcb s)\<bar> < 2 ^ 53 \<and>
          GetMilliSeconds (m_rRtt s) < 2 ^ 53 \<longrightarrow>
            HyblaIRecalcParam tcb s =
              Inr (s\<lparr>m_rho := fmax (fl (real_of_int (GetMilliSeconds (effectiveRtt tcb s)) /
                                         real_of_int (GetMilliSeconds (m_rRtt s))))
                                     (fl 1)\<rparr>)) \<and>
         (0 \<le> effectiveRtt tcb s \<longrightarrow>
            GetMilliSeconds (effectiveRtt tcb s) = \<lfloor>effectiveRtt tcb s * 1000\<rfloor>) \<and>
         GetMilliSeconds (m_rRtt s) = \<lfloor>m_rRtt s * 1000\<rfloor> \<and>
         (GetMilliSeconds (effectiveRtt tcb' s') = GetMilliSeconds (effectiveRtt tcb s) \<and>
          GetMilliSeconds (m_rRtt s') = GetMilliSeconds (m_rRtt s) \<longrightarrow>
            (\<exists>u u'. HyblaIRecalcParam tcb s = Inr u \<and> HyblaIRecalcParam tcb' s' = Inr u' \<and>
                    m_rho u' = m_rho u))"
proof -
  have "0 \<le> m_rRtt s * 1000"
    using assms by (simp add: GetMilliSeconds_def trunc_def split: if_splits)
  then have r: "GetMilliSeconds (m_rRtt s) = \<lfloor>m_rRtt s * 1000\<rfloor>"
    by (simp add: GetMilliSeconds_def trunc_def)
  have e: "0 \<le> effectiveRtt tcb s \<longrightarrow>
            GetMilliSeconds (effectiveRtt tcb s) = \<lfloor>effectiveRtt tcb s * 1000\<rfloor>"
    by (simp add: GetMilliSeconds_def trunc_def)
  have x: "\<bar>GetMilliSeconds (effectiveRtt tcb s)\<bar> < 2 ^ 53 \<and>
          GetMilliSeconds (m_rRtt s) < 2 ^ 53 \<longrightarrow>
            HyblaIRecalcParam tcb s =
              Inr (s\<lparr>m_rho := fmax (fl (real_of_int (GetMilliSeconds (effectiveRtt tcb s)) /
                                         real_of_int (GetMilliSeconds (m_rRtt s))))
                                     (fl 1)\<rparr>)"
    using assms recalc_value [OF assms, of tcb] by (simp add: val_int_to_double)
  have "GetMilliSeconds (effectiveRtt tcb' s') = GetMilliSeconds (effectiveRtt tcb s) \<and>
          GetMilliSeconds (m_rRtt s') = GetMilliSeconds (m_rRtt s) \<longrightarrow>
            (\<exists>u u'. HyblaIRecalcParam tcb s = Inr u \<and> HyblaIRecalcParam tcb' s' = Inr u' \<and>
                    m_rho u' = m_rho u)"
    using assms by (simp add: recalc_value)
  then show ?thesis
    using recalc_value [OF assms] r e x by blast
qed

text \<open>
  An effective RTT of 75.5 ms counts as 75 ms.
\<close>

theorem rho_whole_milliseconds_witness:
  "0 < GetMilliSeconds (m_rRtt ctl_sub_ms) \<and>
   GetMilliSeconds (effectiveRtt tcb_sub_ms ctl_sub_ms) = 75 \<and>
   GetMilliSeconds (m_rRtt ctl_sub_ms) = 50 \<and>
   HyblaIRecalcParam tcb_sub_ms ctl_sub_ms = Inr (ctl_sub_ms\<lparr>m_rho := fl (75/50)\<rparr>)"
  using rho_whole_milliseconds [where s = ctl_sub_ms and tcb = tcb_sub_ms
      and tcb' = tcb_sub_ms and s' = ctl_sub_ms] recalc_sub_ms
  by (simp add: tcb_sub_ms_def ctl_sub_ms_def TcpHyblaI_ctor_def snapshot_defs)

subsection \<open>Conversions and 32-bit sums\<close>

lemma to_uint32_floor:
  "0 \<le> val x \<Longrightarrow> val x < 2 ^ 32 \<Longrightarrow> to_uint32 x = Inr (word_of_int \<lfloor>val x\<rfloor>)"
  by (simp add: to_uint32_def trunc_def)

lemma to_uint32_Inr:
  assumes "to_uint32 x = Inr w"
  shows "- 1 < val x \<and> val x < 2 ^ 32 \<and> w = word_of_int (trunc (val x)) \<and>
         0 \<le> trunc (val x) \<and> trunc (val x) < 2 ^ 32"
proof -
  have r: "- 1 < val x" "val x < 2 ^ 32" and w: "w = word_of_int (trunc (val x))"
    using assms by (auto simp: to_uint32_def split: if_splits)
  have "0 \<le> trunc (val x)"
    using r(1) by (simp add: trunc_def)
  moreover have "trunc (val x) < 2 ^ 32"
  proof (cases "0 \<le> val x")
    case True
    have "\<lfloor>val x\<rfloor> < 2 ^ 32" using r(2) by (simp add: floor_less_iff)
    then show ?thesis using True by (simp add: trunc_def)
  next
    case False
    then have "\<lceil>val x\<rceil> \<le> 0" by (simp add: ceiling_le_iff)
    then show ?thesis using False by (simp add: trunc_def)
  qed
  ultimately show ?thesis using r w by simp
qed

lemma unat_word_of_int:
  fixes i :: int
  assumes "0 \<le> i" and "i < 2 ^ 32"
  shows "unat (word_of_int i :: uint32_t) = nat i"
proof -
  have "uint (word_of_int i :: uint32_t) = i"
    using assms by (simp add: uint_word_of_int take_bit_int_eq_self)
  then show ?thesis by (simp add: unat_eq_nat_uint)
qed

lemma to_double_word_of_int:
  "0 \<le> i \<Longrightarrow> i < 2 ^ 32 \<Longrightarrow> to_double (word_of_int i) = int_to_double i"
  by (simp add: to_double_def int_to_double_def unat_word_of_int)

lemma val_int_to_double_32:
  "0 \<le> i \<Longrightarrow> i < 2 ^ 32 \<Longrightarrow> val (int_to_double i) = real_of_int i"
  by (rule val_int_to_double) simp

lemma unat_add_no_wrap:
  fixes w :: uint32_t and i :: int
  assumes "0 \<le> i" and "int (unat w) + i < 2 ^ 32"
  shows "int (unat (w + word_of_int i)) = int (unat w) + i" and "w \<le> w + word_of_int i"
proof -
  have i: "i < 2 ^ 32" using assms by linarith
  have u: "unat (word_of_int i :: uint32_t) = nat i"
    using assms(1) i by (rule unat_word_of_int)
  have "int (unat w + nat i) < 2 ^ 32"
    using assms by (simp del: of_nat_unat)
  then have "unat w + nat i < 2 ^ 32"
    by (metis of_nat_less_iff of_nat_numeral of_nat_power)
  then have "unat w + unat (word_of_int i :: uint32_t) < 2 ^ 32"
    using u by simp
  then have e: "unat (w + word_of_int i) = unat w + unat (word_of_int i :: uint32_t)"
    using unat_add_lem [of w "word_of_int i"] by simp
  then show "int (unat (w + word_of_int i)) = int (unat w) + i"
    using u assms(1) by simp
  show "w \<le> w + word_of_int i"
    using e by (simp add: word_le_nat_alt)
qed

lemma unat_min:
  fixes a b :: uint32_t
  shows "int (unat (min a b)) = min (int (unat a)) (int (unat b))"
  by (simp add: min_def word_le_nat_alt del: of_nat_unat)

lemma floor_bound:
  fixes x :: real and a :: int
  assumes "0 \<le> a" and "a + \<lfloor>x\<rfloor> < 2 ^ 32"
  shows "x < 2 ^ 32"
proof -
  have "\<lfloor>x\<rfloor> < 2 ^ 32" using assms by linarith
  then show ?thesis by (simp add: floor_less_iff)
qed

lemma ca_increment_nonneg: "0 \<le> val (ca_increment tcb s)"
  unfolding ca_increment_def pow_sq_def val_fl
  by (intro rnd_nonneg divide_nonneg_nonneg to_double_nonneg) simp

lemma rtoRatio_cnt [simp]: "rtoRatio tcb (s\<lparr>m_cWndCnt := c\<rparr>) = rtoRatio tcb s"
  by (simp add: rtoRatio_def)

lemma inflightFactor_cnt [simp]: "inflightFactor (s\<lparr>m_cWndCnt := c\<rparr>) r = inflightFactor s r"
  by (simp add: inflightFactor_def)

lemma rtoFactor_cnt [simp]: "rtoFactor (s\<lparr>m_cWndCnt := c\<rparr>) r = rtoFactor s r"
  by (simp add: rtoFactor_def)

lemma csf_cnt [simp]:
  "ComputeScalingFactor tcb (s\<lparr>m_cWndCnt := c\<rparr>) = ComputeScalingFactor tcb s"
  by (simp add: ComputeScalingFactor_def)

lemma csf_ge_half: "ComputeScalingFactor tcb s = Inr f \<Longrightarrow> 1/2 \<le> val f"
  using fmax_ge(1) [of "fl 0.5"]
  by (auto simp: ComputeScalingFactor_def and_then_def split: sum.splits)

lemma fmul_nonneg: "0 \<le> val a \<Longrightarrow> 0 \<le> val b \<Longrightarrow> 0 \<le> val (fmul a b)"
  unfolding fmul_def val_fl by (intro rnd_nonneg mult_nonneg_nonneg)

subsection \<open>The slow-start step\<close>

text \<open>
  The \<^verbatim>\<open>double\<close> that \<^verbatim>\<open>SlowStart\<close> converts to the increment in bytes is not negative
  when \<open>rho\<close> is not.
\<close>

lemma ss_product_nonneg:
  assumes "0 \<le> val (m_rho s)" and "0 \<le> val scale"
  shows "0 \<le> val (fmul (fmul (fsub (pow_2 (m_rho s)) (fl 1)) scale) (to_double (m_segmentSize tcb)))"
proof -
  have "1 \<le> 2 powr val (m_rho s)"
    using assms(1) by (simp add: ge_one_powr_ge_zero)
  then have "1 \<le> val (pow_2 (m_rho s))"
    unfolding pow_2_def val_fl by (rule rnd_ge_1)
  then have "0 \<le> val (fsub (pow_2 (m_rho s)) (fl 1))"
    unfolding fsub_def val_fl by (intro rnd_nonneg) simp
  then show ?thesis
    using assms(2) by (intro fmul_nonneg to_double_nonneg)
qed

lemma ss_result:
  assumes "SlowStart tcb n s = Inr (tcb', s', r)"
  shows "m_cWnd tcb \<le> m_ssThresh tcb \<and> s' = s \<and>
         (n = 0 \<and> tcb' = tcb \<and> r = 0 \<or>
          n \<noteq> 0 \<and> r = n - 1 \<and>
            (\<exists>scale incr. ComputeScalingFactor tcb s = Inr scale \<and>
               to_uint32 (fmul (fmul (fsub (pow_2 (m_rho s)) (fl 1)) scale)
                               (to_double (m_segmentSize tcb))) = Inr incr \<and>
               tcb' = tcb\<lparr>m_cWnd := min (m_cWnd tcb + incr) (m_ssThresh tcb)\<rparr>))"
proof -
  have le: "m_cWnd tcb \<le> m_ssThresh tcb"
    using assms by (auto simp: SlowStart_def split: if_splits)
  show ?thesis
  proof (cases "n = 0")
    case True
    then show ?thesis using assms le by (auto simp: SlowStart_def)
  next
    case False
    then have "1 \<le> n"
      by (simp add: word_le_nat_alt unat_gt_0 Suc_le_eq)
    then show ?thesis
      using assms le False
      by (auto simp: SlowStart_def Let_def and_then_def split: sum.splits)
  qed
qed

lemma ss_step:
  assumes le: "m_cWnd tcb \<le> m_ssThresh tcb" and n: "segmentsAcked \<noteq> 0"
    and csf: "ComputeScalingFactor tcb s = Inr scale"
    and x0: "0 \<le> val (fmul (fmul (fsub (pow_2 (m_rho s)) (fl 1)) scale)
                             (to_double (m_segmentSize tcb)))"
    and x1: "val (fmul (fmul (fsub (pow_2 (m_rho s)) (fl 1)) scale)
                       (to_double (m_segmentSize tcb))) < 2 ^ 32"
  shows "SlowStart tcb segmentsAcked s =
           Inr (tcb\<lparr>m_cWnd := min (m_cWnd tcb + word_of_int (ss_bytes tcb s scale)) (m_ssThresh tcb)\<rparr>,
                s, segmentsAcked - 1)"
proof -
  have "1 \<le> segmentsAcked"
    using n by (simp add: word_le_nat_alt unat_gt_0 Suc_le_eq)
  then show ?thesis
    using le csf to_uint32_floor [OF x0 x1]
    by (simp add: SlowStart_def Let_def ss_bytes_def)
qed

lemma ss_zero:
  assumes "m_cWnd tcb \<le> m_ssThresh tcb"
  shows "SlowStart tcb 0 s = Inr (tcb, s, 0)"
  using assms by (simp add: SlowStart_def)

text \<open>
  C2, amended. \<^verbatim>\<open>SlowStart\<close> returns only when called with \<open>congestionWindow \<le>
  slowStartThreshold\<close>, and every call that returns leaves the controller state and all
  of the socket state but the window as they were, leaves the window at or below the
  threshold, and returns \<open>segmentsAcked - 1\<close> if \<open>segmentsAcked \<ge> 1\<close> and 0 otherwise; with
  \<open>segmentsAcked = 0\<close> the call returns and changes nothing. For \<open>segmentsAcked \<ge> 1\<close> and
  \<open>rho \<ge> 0\<close>, provided \<open>congestionWindow + incrementBytes\<close> is below \<open>2 ^ 32\<close>, the call
  returns and sets the window to \<open>min(congestionWindow + incrementBytes,
  slowStartThreshold)\<close>, where \<open>incrementBytes = floor((2^rho - 1) \<times>
  ComputeScalingFactor(snapshot) \<times> maxSegmentSize)\<close> with the subtraction and the two
  products each rounded to a \<^verbatim>\<open>double\<close>. With \<open>rho = 1\<close> and a scaling factor of 1 the
  increment is exactly one segment size.
\<close>

theorem SlowStart_step:
  "(SlowStart tcb n s = Inr (tcb', s', r) \<longrightarrow>
      m_cWnd tcb \<le> m_ssThresh tcb \<and> s' = s \<and> tcb' = tcb\<lparr>m_cWnd := m_cWnd tcb'\<rparr> \<and>
      m_cWnd tcb' \<le> m_ssThresh tcb \<and>
      (1 \<le> n \<longrightarrow> r = n - 1 \<and> unat r = unat n - 1) \<and>
      (n = 0 \<longrightarrow> r = 0 \<and> tcb' = tcb)) \<and>
   (m_cWnd tcb \<le> m_ssThresh tcb \<longrightarrow> SlowStart tcb 0 s = Inr (tcb, s, 0)) \<and>
   (m_cWnd tcb \<le> m_ssThresh tcb \<and> 1 \<le> n \<and> 0 \<le> val (m_rho s) \<and>
    ComputeScalingFactor tcb s = Inr scale \<and>
    int (unat (m_cWnd tcb)) + ss_bytes tcb s scale < 2 ^ 32 \<longrightarrow>
      (\<exists>w. SlowStart tcb n s = Inr (tcb\<lparr>m_cWnd := w\<rparr>, s, n - 1) \<and>
           int (unat w) = min (int (unat (m_cWnd tcb)) + ss_bytes tcb s scale)
                              (int (unat (m_ssThresh tcb))) \<and>
           w \<le> m_ssThresh tcb)) \<and>
   (val (m_rho s) = 1 \<and> val scale = 1 \<longrightarrow>
      ss_bytes tcb s scale = int (unat (m_segmentSize tcb)))"
proof -
  have a: "m_cWnd tcb \<le> m_ssThresh tcb \<and> s' = s \<and> tcb' = tcb\<lparr>m_cWnd := m_cWnd tcb'\<rparr> \<and>
      m_cWnd tcb' \<le> m_ssThresh tcb \<and>
      (1 \<le> n \<longrightarrow> r = n - 1 \<and> unat r = unat n - 1) \<and>
      (n = 0 \<longrightarrow> r = 0 \<and> tcb' = tcb)"
    if res: "SlowStart tcb n s = Inr (tcb', s', r)"
  proof (cases "n = 0")
    case True
    then show ?thesis using ss_result [OF res] by auto
  next
    case False
    then have "unat (n - 1) = unat n - 1" by (rule unat_minus_one)
    then show ?thesis using ss_result [OF res] False by auto
  qed
  have b: "m_cWnd tcb \<le> m_ssThresh tcb \<longrightarrow> SlowStart tcb 0 s = Inr (tcb, s, 0)"
    using ss_zero by blast
  have c: "\<exists>w. SlowStart tcb n s = Inr (tcb\<lparr>m_cWnd := w\<rparr>, s, n - 1) \<and>
           int (unat w) = min (int (unat (m_cWnd tcb)) + ss_bytes tcb s scale)
                              (int (unat (m_ssThresh tcb))) \<and>
           w \<le> m_ssThresh tcb"
    if le: "m_cWnd tcb \<le> m_ssThresh tcb" and n1: "1 \<le> n" and rho: "0 \<le> val (m_rho s)"
      and csf: "ComputeScalingFactor tcb s = Inr scale"
      and nw: "int (unat (m_cWnd tcb)) + ss_bytes tcb s scale < 2 ^ 32"
  proof -
    have n: "n \<noteq> 0" using n1 by auto
    define x where "x = fmul (fmul (fsub (pow_2 (m_rho s)) (fl 1)) scale)
                             (to_double (m_segmentSize tcb))"
    have s0: "0 \<le> val scale" using csf_ge_half [OF csf] by simp
    have x0: "0 \<le> val x"
      unfolding x_def using rho s0 by (rule ss_product_nonneg)
    have bx: "ss_bytes tcb s scale = \<lfloor>val x\<rfloor>" by (simp add: ss_bytes_def x_def)
    have nw': "int (unat (m_cWnd tcb)) + \<lfloor>val x\<rfloor> < 2 ^ 32"
      using nw bx by simp
    have x1: "val x < 2 ^ 32"
      by (rule floor_bound [OF _ nw']) simp
    have f0: "0 \<le> \<lfloor>val x\<rfloor>" using x0 by simp
    define w where "w = min (m_cWnd tcb + word_of_int \<lfloor>val x\<rfloor>) (m_ssThresh tcb)"
    have "SlowStart tcb n s = Inr (tcb\<lparr>m_cWnd := w\<rparr>, s, n - 1)"
      using ss_step [OF le n csf x0 [unfolded x_def] x1 [unfolded x_def]]
      by (simp add: w_def bx x_def)
    moreover have "int (unat w) = min (int (unat (m_cWnd tcb)) + ss_bytes tcb s scale)
                                    (int (unat (m_ssThresh tcb)))"
      unfolding w_def unat_min bx using unat_add_no_wrap(1) [OF f0 nw'] by simp
    moreover have "w \<le> m_ssThresh tcb" by (simp add: w_def)
    ultimately show ?thesis by blast
  qed
  have d: "val (m_rho s) = 1 \<and> val scale = 1 \<longrightarrow>
      ss_bytes tcb s scale = int (unat (m_segmentSize tcb))"
    using rnd_id [OF unat_in_B64 [of "m_segmentSize tcb"]]
    by (simp add: ss_bytes_def fmul_def fsub_def pow_2_def val_to_double del: of_nat_unat)
  show ?thesis using a b c d by blast
qed

lemma start_csf: "ComputeScalingFactor tcb_start TcpHyblaI_ctor = Inr (fl 1)"
  by (simp add: tcb_start_def TcpHyblaI_ctor_def csf_defs snapshot_defs arith_defs rnd_facts
        fl_eq_iff)

lemma start_bytes: "ss_bytes tcb_start TcpHyblaI_ctor (fl 1) = 1460"
  by (simp add: ss_bytes_def tcb_start_def TcpHyblaI_ctor_def arith_defs)

lemma start_step:
  "SlowStart tcb_start 1 TcpHyblaI_ctor = Inr (tcb_start\<lparr>m_cWnd := 16060\<rparr>, TcpHyblaI_ctor, 0)"
proof -
  have "SlowStart tcb_start 1 TcpHyblaI_ctor =
      Inr (tcb_start\<lparr>m_cWnd := min (m_cWnd tcb_start + word_of_int 1460) (m_ssThresh tcb_start)\<rparr>,
           TcpHyblaI_ctor, 1 - 1)"
    unfolding start_bytes [symmetric]
    by (rule ss_step [OF _ _ start_csf])
       (simp_all add: tcb_start_def TcpHyblaI_ctor_def arith_defs)
  then show ?thesis
    by (simp add: tcb_start_def)
qed

lemma loaded_csf:
  "ComputeScalingFactor tcb_loaded TcpHyblaI_ctor =
     Inr (fl (4206362051964043 / 4503599627370496))"
  by (simp add: tcb_loaded_def TcpHyblaI_ctor_def csf_defs snapshot_defs arith_defs rnd_facts
        fl_eq_iff)

lemma loaded_bytes:
  "ss_bytes tcb_loaded TcpHyblaI_ctor (fl (4206362051964043 / 4503599627370496)) = 933"
  by (simp add: ss_bytes_def tcb_loaded_def TcpHyblaI_ctor_def arith_defs rnd_facts)

lemma loaded_step:
  "SlowStart tcb_loaded 1 TcpHyblaI_ctor = Inr (tcb_loaded\<lparr>m_cWnd := 25933\<rparr>, TcpHyblaI_ctor, 0)"
proof -
  have "SlowStart tcb_loaded 1 TcpHyblaI_ctor =
      Inr (tcb_loaded\<lparr>m_cWnd := min (m_cWnd tcb_loaded + word_of_int 933) (m_ssThresh tcb_loaded)\<rparr>,
           TcpHyblaI_ctor, 1 - 1)"
    unfolding loaded_bytes [symmetric]
    by (rule ss_step [OF _ _ loaded_csf])
       (simp_all add: tcb_loaded_def TcpHyblaI_ctor_def arith_defs rnd_facts)
  then show ?thesis
    by (simp add: tcb_loaded_def)
qed

text \<open>
  One acknowledged segment at \<open>rho = 1\<close> on a window of 25000 bytes with 23300 in flight,
  in segments of 1000 bytes. The in-flight ratio is the \<^verbatim>\<open>double\<close> nearest 0.932, the
  scaling factor \<open>1 - (ratio - 0.8) \<times> 0.5\<close> comes out just below 0.934, its product with
  1000 is 933.9999999999999 and the window grows by 933 bytes, where the same formula in
  exact arithmetic gives 934. With nothing in flight on a window of 14600 bytes the
  scaling factor is 1 and the window grows by one segment of 1460 bytes; with no segment
  acknowledged it stays as it is.
\<close>

theorem SlowStart_step_witness:
  "m_cWnd tcb_loaded \<le> m_ssThresh tcb_loaded \<and> 0 \<le> val (m_rho TcpHyblaI_ctor) \<and>
   ComputeScalingFactor tcb_loaded TcpHyblaI_ctor =
     Inr (fl (4206362051964043 / 4503599627370496)) \<and>
   ss_bytes tcb_loaded TcpHyblaI_ctor (fl (4206362051964043 / 4503599627370496)) = 933 \<and>
   int (unat (m_cWnd tcb_loaded)) + 933 < 2 ^ 32 \<and>
   SlowStart tcb_loaded 1 TcpHyblaI_ctor =
     Inr (tcb_loaded\<lparr>m_cWnd := 25933\<rparr>, TcpHyblaI_ctor, 0) \<and>
   \<lfloor>(2 powr 1 - 1) * (1 - (23300 / 25000 - 0.8) * 0.5) * (1000 :: real)\<rfloor> = 934 \<and>
   m_cWnd tcb_start \<le> m_ssThresh tcb_start \<and> val (m_rho TcpHyblaI_ctor) = 1 \<and>
   ComputeScalingFactor tcb_start TcpHyblaI_ctor = Inr (fl 1) \<and> val (fl 1) = 1 \<and>
   ss_bytes tcb_start TcpHyblaI_ctor (fl 1) = int (unat (m_segmentSize tcb_start)) \<and>
   SlowStart tcb_start 1 TcpHyblaI_ctor =
     Inr (tcb_start\<lparr>m_cWnd := 16060\<rparr>, TcpHyblaI_ctor, 0) \<and>
   SlowStart tcb_start 0 TcpHyblaI_ctor = Inr (tcb_start, TcpHyblaI_ctor, 0)"
proof -
  have a: "m_cWnd tcb_loaded \<le> m_ssThresh tcb_loaded" "0 \<le> val (m_rho TcpHyblaI_ctor)"
    "int (unat (m_cWnd tcb_loaded)) + 933 < 2 ^ 32"
    by (simp_all add: tcb_loaded_def TcpHyblaI_ctor_def)
  have b: "\<lfloor>(2 powr 1 - 1) * (1 - (23300 / 25000 - 0.8) * 0.5) * (1000 :: real)\<rfloor> = 934"
    by simp
  have c: "m_cWnd tcb_start \<le> m_ssThresh tcb_start" "val (m_rho TcpHyblaI_ctor) = 1"
    "val (fl 1) = 1"
    by (simp_all add: tcb_start_def TcpHyblaI_ctor_def)
  have d: "ss_bytes tcb_start TcpHyblaI_ctor (fl 1) = int (unat (m_segmentSize tcb_start))"
    "SlowStart tcb_start 0 TcpHyblaI_ctor = Inr (tcb_start, TcpHyblaI_ctor, 0)"
    using c
      SlowStart_step [where tcb = tcb_start and s = TcpHyblaI_ctor and n = 1
        and scale = "fl 1" and tcb' = "tcb_start\<lparr>m_cWnd := 16060\<rparr>"
        and s' = TcpHyblaI_ctor and r = 0]
    by blast+
  show ?thesis
    using a b c d loaded_csf loaded_bytes loaded_step start_csf start_step
      SlowStart_step [where tcb = tcb_loaded and s = TcpHyblaI_ctor and n = 1
        and scale = "fl (4206362051964043 / 4503599627370496)"
        and tcb' = "tcb_loaded\<lparr>m_cWnd := 25933\<rparr>" and s' = TcpHyblaI_ctor and r = 0]
    by blast
qed

lemma top_csf: "ComputeScalingFactor tcb_top TcpHyblaI_ctor = Inr (fl 1)"
  by (simp add: tcb_top_def TcpHyblaI_ctor_def csf_defs snapshot_defs arith_defs rnd_facts
        fl_eq_iff)

lemma top_bytes: "ss_bytes tcb_top TcpHyblaI_ctor (fl 1) = 1460"
  by (simp add: ss_bytes_def tcb_top_def TcpHyblaI_ctor_def arith_defs)

lemma top_step:
  "SlowStart tcb_top 1 TcpHyblaI_ctor = Inr (tcb_top\<lparr>m_cWnd := 1164\<rparr>, TcpHyblaI_ctor, 0)"
proof -
  have "SlowStart tcb_top 1 TcpHyblaI_ctor =
      Inr (tcb_top\<lparr>m_cWnd := min (m_cWnd tcb_top + word_of_int 1460) (m_ssThresh tcb_top)\<rparr>,
           TcpHyblaI_ctor, 1 - 1)"
    unfolding top_bytes [symmetric]
    by (rule ss_step [OF _ _ top_csf])
       (simp_all add: tcb_top_def TcpHyblaI_ctor_def arith_defs)
  then show ?thesis
    by (simp add: tcb_top_def)
qed

text \<open>
  C2, as stated, fails: the sum \<^verbatim>\<open>tcb->m_cWnd + incr\<close> is a \<^verbatim>\<open>uint32_t\<close> and wraps. With a
  window of 4294967000, the threshold at 4294967295, \<open>rho = 1\<close>, a scaling factor of 1 and
  one acknowledged segment, the claimed window is \<open>min(4294967000 + 1460, 4294967295) =
  4294967295\<close>; the code leaves 1164.
\<close>

theorem SlowStart_wrap_counterexample:
  "m_cWnd tcb_top \<le> m_ssThresh tcb_top \<and>
   ComputeScalingFactor tcb_top TcpHyblaI_ctor = Inr (fl 1) \<and>
   SlowStart tcb_top 1 TcpHyblaI_ctor = Inr (tcb_top\<lparr>m_cWnd := 1164\<rparr>, TcpHyblaI_ctor, 0) \<and>
   min (int (unat (m_cWnd tcb_top)) + ss_bytes tcb_top TcpHyblaI_ctor (fl 1))
       (int (unat (m_ssThresh tcb_top))) = 4294967295"
  using top_csf top_step by (simp add: top_bytes) (simp add: tcb_top_def)

subsection \<open>The congestion-avoidance step\<close>

lemma credit_after_nonneg:
  assumes "0 \<le> val (m_cWndCnt s)"
  shows "0 \<le> val (credit_after tcb n s)"
proof -
  have "0 \<le> val (((\<lambda>c. fadd c (ca_increment tcb s)) ^^ k) (m_cWndCnt s))" for k
  proof (induction k)
    case 0
    then show ?case using assms by simp
  next
    case (Suc k)
    then show ?case
      using ca_increment_nonneg [of tcb s] by (simp add: fadd_def rnd_nonneg)
  qed
  then show ?thesis by (simp add: credit_after_def)
qed

lemma ca_step_below:
  assumes "m_segmentSize tcb \<noteq> 0" and "m_segmentSize tcb \<le> m_cWnd tcb"
    and "val (credit_after tcb n s) < 1"
  shows "CongestionAvoidance tcb n s = Inr (tcb, s\<lparr>m_cWndCnt := credit_after tcb n s\<rparr>)"
  using assms(3) ca_loop_total [OF assms(1,2)]
  by (simp add: CongestionAvoidance_def credit_after_def)

text \<open>What a step does once the loop has brought the counter to 1.0 or more.\<close>

lemma ca_consume:
  assumes csf: "ComputeScalingFactor tcb s = Inr scale"
    and c1: "1 \<le> val c" and c2: "val c < 2 ^ 32"
  shows "to_uint32 c = Inr (word_of_int \<lfloor>val c\<rfloor>)"
    and "to_double (word_of_int \<lfloor>val c\<rfloor>) = int_to_double \<lfloor>val c\<rfloor>"
    and "fsub c (int_to_double \<lfloor>val c\<rfloor>) = fl (frac (val c))"
    and "val (fl (frac (val c))) = frac (val c)"
    and "0 \<le> val (fmul (int_to_double \<lfloor>val c\<rfloor>) scale)"
proof -
  have c0: "0 \<le> val c" using c1 by simp
  have f0: "0 \<le> \<lfloor>val c\<rfloor>" using c0 by simp
  have f1: "\<lfloor>val c\<rfloor> < 2 ^ 32" using c2 by (simp add: floor_less_iff)
  show "to_uint32 c = Inr (word_of_int \<lfloor>val c\<rfloor>)"
    using c0 c2 by (rule to_uint32_floor)
  show "to_double (word_of_int \<lfloor>val c\<rfloor>) = int_to_double \<lfloor>val c\<rfloor>"
    using f0 f1 by (rule to_double_word_of_int)
  have v: "val (int_to_double \<lfloor>val c\<rfloor>) = real_of_int \<lfloor>val c\<rfloor>"
    using f0 f1 by (rule val_int_to_double_32)
  show "fsub c (int_to_double \<lfloor>val c\<rfloor>) = fl (frac (val c))"
    by (simp add: fsub_def v frac_def)
  show "val (fl (frac (val c))) = frac (val c)"
    using rnd_frac [OF c0] by (simp add: frac_def)
  have "0 \<le> val (int_to_double \<lfloor>val c\<rfloor>)" using v f0 by simp
  moreover have "0 \<le> val scale" using csf_ge_half [OF csf] by simp
  ultimately show "0 \<le> val (fmul (int_to_double \<lfloor>val c\<rfloor>) scale)"
    by (rule fmul_nonneg)
qed

lemma ca_step_consume:
  assumes mss: "m_segmentSize tcb \<noteq> 0" and seg: "m_segmentSize tcb \<le> m_cWnd tcb"
    and csf: "ComputeScalingFactor tcb s = Inr scale"
    and c1: "1 \<le> val (credit_after tcb n s)" and c2: "val (credit_after tcb n s) < 2 ^ 32"
    and x: "val (fmul (fmul (int_to_double \<lfloor>val (credit_after tcb n s)\<rfloor>) scale)
                      (to_double (m_segmentSize tcb))) < 2 ^ 32"
  shows "CongestionAvoidance tcb n s =
           Inr (tcb\<lparr>m_cWnd := m_cWnd tcb + word_of_int (ca_bytes tcb (credit_after tcb n s) scale)\<rparr>,
                s\<lparr>m_cWndCnt := fl (frac (val (credit_after tcb n s)))\<rparr>)"
proof -
  define c where "c = credit_after tcb n s"
  have loop: "ca_loop (unat n) tcb s = Inr (s\<lparr>m_cWndCnt := c\<rparr>)"
    using ca_loop_total [OF mss seg] by (simp add: c_def credit_after_def)
  note k = ca_consume [OF csf c1 c2, folded c_def]
  have k5: "0 \<le> val (fmul (fmul (int_to_double \<lfloor>val c\<rfloor>) scale) (to_double (m_segmentSize tcb)))"
    using k(5) by (rule fmul_nonneg [OF _ to_double_nonneg])
  have sc: "to_uint32 (fmul (fmul (int_to_double \<lfloor>val c\<rfloor>) scale) (to_double (m_segmentSize tcb))) =
      Inr (word_of_int (ca_bytes tcb c scale))"
    using to_uint32_floor [OF k5] x by (simp add: c_def ca_bytes_def)
  show ?thesis
    using loop c1 k(1,2,3) csf sc
    by (simp add: CongestionAvoidance_def Let_def c_def [symmetric])
qed

lemma ca_result:
  assumes "CongestionAvoidance tcb n s = Inr (tcb', s')"
  shows "ca_loop (unat n) tcb s = Inr (s\<lparr>m_cWndCnt := credit_after tcb n s\<rparr>) \<and>
         ((val (credit_after tcb n s) < 1 \<and> tcb' = tcb \<and>
           s' = s\<lparr>m_cWndCnt := credit_after tcb n s\<rparr>) \<or>
          (1 \<le> val (credit_after tcb n s) \<and> val (credit_after tcb n s) < 2 ^ 32 \<and>
           s' = s\<lparr>m_cWndCnt := fl (frac (val (credit_after tcb n s)))\<rparr> \<and>
           (\<exists>scale. ComputeScalingFactor tcb s = Inr scale \<and>
              0 \<le> ca_bytes tcb (credit_after tcb n s) scale \<and>
              ca_bytes tcb (credit_after tcb n s) scale < 2 ^ 32 \<and>
              tcb' = tcb\<lparr>m_cWnd := m_cWnd tcb +
                        word_of_int (ca_bytes tcb (credit_after tcb n s) scale)\<rparr>)))"
proof -
  define c where "c = credit_after tcb n s"
  from assms obtain s1 where loop: "ca_loop (unat n) tcb s = Inr s1"
    by (auto simp: CongestionAvoidance_def and_then_def split: sum.splits)
  have s1: "s1 = s\<lparr>m_cWndCnt := c\<rparr>"
    using ca_loop_result [OF loop] by (simp add: c_def credit_after_def)
  show ?thesis
  proof (cases "1 \<le> val c")
    case False
    then have "tcb' = tcb \<and> s' = s\<lparr>m_cWndCnt := c\<rparr>"
      using assms loop s1 by (auto simp: CongestionAvoidance_def)
    then show ?thesis
      using False loop s1 unfolding c_def by simp
  next
    case True
    from assms loop s1 True obtain inc scale scaledInc where
      inc: "to_uint32 c = Inr inc" and
      csf: "ComputeScalingFactor tcb s = Inr scale" and
      sc: "to_uint32 (fmul (fmul (to_double inc) scale) (to_double (m_segmentSize tcb))) =
             Inr scaledInc" and
      res: "tcb' = tcb\<lparr>m_cWnd := m_cWnd tcb + scaledInc\<rparr>"
           "s' = s\<lparr>m_cWndCnt := fsub c (to_double inc)\<rparr>"
      by (auto simp: CongestionAvoidance_def Let_def and_then_def split: sum.splits)
    have c2: "val c < 2 ^ 32" using to_uint32_Inr [OF inc] by simp
    note k = ca_consume [OF csf True c2]
    have i: "inc = word_of_int \<lfloor>val c\<rfloor>"
      using inc k(1) by simp
    define x where "x = fmul (fmul (int_to_double \<lfloor>val c\<rfloor>) scale) (to_double (m_segmentSize tcb))"
    have x0: "0 \<le> val x"
      unfolding x_def using k(5) by (rule fmul_nonneg [OF _ to_double_nonneg])
    have scx: "to_uint32 x = Inr scaledInc"
      using sc by (simp add: i k(2) x_def)
    have x1: "val x < 2 ^ 32"
      using to_uint32_Inr [OF scx] by simp
    have b: "ca_bytes tcb c scale = \<lfloor>val x\<rfloor>"
      by (simp add: ca_bytes_def x_def)
    have "scaledInc = word_of_int (ca_bytes tcb c scale)"
      using scx to_uint32_floor [OF x0 x1] by (simp add: b)
    then have "tcb' = tcb\<lparr>m_cWnd := m_cWnd tcb + word_of_int (ca_bytes tcb c scale)\<rparr>"
      and "s' = s\<lparr>m_cWndCnt := fl (frac (val c))\<rparr>"
      using res by (simp_all add: i k(2,3))
    moreover have "0 \<le> ca_bytes tcb c scale" "ca_bytes tcb c scale < 2 ^ 32"
      using x0 x1 by (simp_all add: b floor_less_iff)
    ultimately show ?thesis
      using True c2 csf loop s1 unfolding c_def by blast
  qed
qed

text \<open>
  C3, amended. \<^verbatim>\<open>CongestionAvoidance\<close> adds \<open>rho\<^sup>2 / segmentsInWindow\<close>, a \<^verbatim>\<open>double\<close>, to the
  counter once for each acknowledged segment, rounding the sum to a \<^verbatim>\<open>double\<close> each
  time; call the result \<open>c\<close>. Every call that returns leaves the controller state but
  the counter and the socket state but the window as they were; if and only if \<open>c \<ge> 1\<close>
  it adds \<open>floor(floor(c) \<times> ComputeScalingFactor(snapshot) \<times> maxSegmentSize)\<close> bytes, the
  two products each rounded to a \<^verbatim>\<open>double\<close>, to the window, in \<^verbatim>\<open>uint32_t\<close> arithmetic,
  and leaves the counter at the fractional part of \<open>c\<close>, exactly; otherwise it leaves
  the window as it is and the counter at \<open>c\<close>. For every snapshot with
  \<open>segmentsInWindow = congestionWindow / maxSegmentSize \<ge> 1\<close>, provided \<open>c\<close> is below
  \<open>2 ^ 32\<close> and, when \<open>c \<ge> 1\<close>, \<open>congestionWindow\<close> plus those bytes is below \<open>2 ^ 32\<close>,
  the call returns and the window grows by exactly those bytes.
\<close>

theorem CongestionAvoidance_step:
  assumes c: "c = ((\<lambda>x. fadd x (fl (val (pow_sq (m_rho s)) /
                                    val (to_double (m_cWnd tcb div m_segmentSize tcb)))))
                  ^^ unat segmentsAcked) (m_cWndCnt s)"
  shows "(CongestionAvoidance tcb segmentsAcked s = Inr (tcb', s') \<longrightarrow>
            ca_loop (unat segmentsAcked) tcb s = Inr (s\<lparr>m_cWndCnt := c\<rparr>) \<and>
            s' = s\<lparr>m_cWndCnt := m_cWndCnt s'\<rparr> \<and>
            val (m_cWndCnt s') = (if 1 \<le> val c then frac (val c) else val c) \<and>
            tcb' = tcb\<lparr>m_cWnd := m_cWnd tcb'\<rparr> \<and>
            (val c < 1 \<longrightarrow> m_cWnd tcb' = m_cWnd tcb) \<and>
            (1 \<le> val c \<longrightarrow>
               (\<exists>f. ComputeScalingFactor tcb s = Inr f \<and>
                    m_cWnd tcb' = m_cWnd tcb + word_of_int (ca_bytes tcb c f)))) \<and>
         (m_segmentSize tcb \<noteq> 0 \<and> m_segmentSize tcb \<le> m_cWnd tcb \<and>
          ComputeScalingFactor tcb s = Inr scale \<and> val c < 2 ^ 32 \<and>
          (1 \<le> val c \<longrightarrow> int (unat (m_cWnd tcb)) + ca_bytes tcb c scale < 2 ^ 32) \<longrightarrow>
            (\<exists>w c'. CongestionAvoidance tcb segmentsAcked s =
                      Inr (tcb\<lparr>m_cWnd := w\<rparr>, s\<lparr>m_cWndCnt := c'\<rparr>) \<and>
                    val c' = (if 1 \<le> val c then frac (val c) else val c) \<and>
                    int (unat w) =
                      int (unat (m_cWnd tcb)) +
                      (if 1 \<le> val c then ca_bytes tcb c scale else 0) \<and>
                    ca_loop (unat segmentsAcked) tcb s = Inr (s\<lparr>m_cWndCnt := c\<rparr>)))"
proof -
  have cc: "c = credit_after tcb segmentsAcked s"
    by (simp add: c credit_after_def ca_increment_def)
  have a: "ca_loop (unat segmentsAcked) tcb s = Inr (s\<lparr>m_cWndCnt := c\<rparr>) \<and>
            s' = s\<lparr>m_cWndCnt := m_cWndCnt s'\<rparr> \<and>
            val (m_cWndCnt s') = (if 1 \<le> val c then frac (val c) else val c) \<and>
            tcb' = tcb\<lparr>m_cWnd := m_cWnd tcb'\<rparr> \<and>
            (val c < 1 \<longrightarrow> m_cWnd tcb' = m_cWnd tcb) \<and>
            (1 \<le> val c \<longrightarrow>
               (\<exists>f. ComputeScalingFactor tcb s = Inr f \<and>
                    m_cWnd tcb' = m_cWnd tcb + word_of_int (ca_bytes tcb c f)))"
    if res: "CongestionAvoidance tcb segmentsAcked s = Inr (tcb', s')"
  proof (cases "1 \<le> val c")
    case False
    then show ?thesis
      using ca_result [OF res] unfolding cc [symmetric] by auto
  next
    case True
    then have "0 \<le> val c" by simp
    then have "val (fl (frac (val c))) = frac (val c)"
      using rnd_frac [of c] by (simp add: frac_def)
    then show ?thesis
      using True ca_result [OF res] unfolding cc [symmetric] by auto
  qed
  have b: "\<exists>w c'. CongestionAvoidance tcb segmentsAcked s =
                      Inr (tcb\<lparr>m_cWnd := w\<rparr>, s\<lparr>m_cWndCnt := c'\<rparr>) \<and>
                    val c' = (if 1 \<le> val c then frac (val c) else val c) \<and>
                    int (unat w) =
                      int (unat (m_cWnd tcb)) +
                      (if 1 \<le> val c then ca_bytes tcb c scale else 0) \<and>
                    ca_loop (unat segmentsAcked) tcb s = Inr (s\<lparr>m_cWndCnt := c\<rparr>)"
    if mss: "m_segmentSize tcb \<noteq> 0" and seg: "m_segmentSize tcb \<le> m_cWnd tcb"
      and csf: "ComputeScalingFactor tcb s = Inr scale" and c2: "val c < 2 ^ 32"
      and nowrap: "1 \<le> val c \<longrightarrow> int (unat (m_cWnd tcb)) + ca_bytes tcb c scale < 2 ^ 32"
  proof -
    have loop: "ca_loop (unat segmentsAcked) tcb s = Inr (s\<lparr>m_cWndCnt := c\<rparr>)"
      using ca_loop_total [OF mss seg] by (simp add: cc credit_after_def)
    show ?thesis
    proof (cases "1 \<le> val c")
      case False
      then have "CongestionAvoidance tcb segmentsAcked s =
          Inr (tcb\<lparr>m_cWnd := m_cWnd tcb\<rparr>, s\<lparr>m_cWndCnt := c\<rparr>)"
        using ca_step_below [OF mss seg, of segmentsAcked s] by (simp add: cc)
      then show ?thesis
        using False loop by (intro exI [of _ "m_cWnd tcb"] exI [of _ c]) simp
    next
      case True
      note k = ca_consume [OF csf True c2]
      define x where "x = fmul (fmul (int_to_double \<lfloor>val c\<rfloor>) scale) (to_double (m_segmentSize tcb))"
      have bx: "ca_bytes tcb c scale = \<lfloor>val x\<rfloor>" by (simp add: ca_bytes_def x_def)
      have nw: "int (unat (m_cWnd tcb)) + \<lfloor>val x\<rfloor> < 2 ^ 32"
        using nowrap True bx by simp
      have x1: "val x < 2 ^ 32"
        by (rule floor_bound [OF _ nw]) simp
      have x0: "0 \<le> val x"
        unfolding x_def using k(5) by (rule fmul_nonneg [OF _ to_double_nonneg])
      then have f0: "0 \<le> \<lfloor>val x\<rfloor>" by simp
      have "CongestionAvoidance tcb segmentsAcked s =
          Inr (tcb\<lparr>m_cWnd := m_cWnd tcb + word_of_int \<lfloor>val x\<rfloor>\<rparr>, s\<lparr>m_cWndCnt := fl (frac (val c))\<rparr>)"
        using ca_step_consume [OF mss seg csf, of segmentsAcked] True c2 x1
        by (simp add: cc [symmetric] x_def bx [unfolded x_def])
      then show ?thesis
        using True loop unat_add_no_wrap(1) [OF f0 nw] bx k(4)
        by (intro exI [of _ "m_cWnd tcb + word_of_int \<lfloor>val x\<rfloor>"] exI [of _ "fl (frac (val c))"]) simp
    qed
  qed
  show ?thesis using a b by blast
qed

lemma five_facts:
  "m_segmentSize tcb_five \<noteq> 0" "m_segmentSize tcb_five \<le> m_cWnd tcb_five"
  "ComputeScalingFactor tcb_five ctl_095 = Inr (fl 1)"
  "credit_after tcb_five 1 ctl_095 = fl (2589569785738035 / 2251799813685248)"
  "ca_bytes tcb_five (fl (2589569785738035 / 2251799813685248)) (fl 1) = 1460"
  "frac (2589569785738035 / 2251799813685248 :: real) = 337769972052787 / 2251799813685248"
  by (simp_all add: tcb_five_def ctl_095_def TcpHyblaI_ctor_def csf_defs snapshot_defs arith_defs
        credit_after_def ca_increment_def ca_bytes_def rnd_facts fl_eq_iff frac_def)

lemma five_step:
  "CongestionAvoidance tcb_five 1 ctl_095 =
     Inr (tcb_five\<lparr>m_cWnd := 8760\<rparr>,
          ctl_095\<lparr>m_cWndCnt := fl (337769972052787 / 2251799813685248)\<rparr>)"
proof -
  have "CongestionAvoidance tcb_five 1 ctl_095 =
     Inr (tcb_five\<lparr>m_cWnd := m_cWnd tcb_five +
             word_of_int (ca_bytes tcb_five (credit_after tcb_five 1 ctl_095) (fl 1))\<rparr>,
          ctl_095\<lparr>m_cWndCnt := fl (frac (val (credit_after tcb_five 1 ctl_095)))\<rparr>)"
    by (rule ca_step_consume [OF five_facts(1,2,3)])
       (simp_all add: five_facts(4) rnd_facts, simp add: tcb_five_def arith_defs rnd_facts)
  then show ?thesis
    by (simp add: five_facts(4,5,6) rnd_facts) (simp add: tcb_five_def)
qed


text \<open>
  The scenario of the spec: a counter of 0.95 and one step of credit 0.2. The sum of the
  two \<^verbatim>\<open>double\<close>s rounds to the \<^verbatim>\<open>double\<close> nearest 1.15; the window grows by one
  segment (the scaling factor is 1) and the counter is left at the fractional part of
  that \<^verbatim>\<open>double\<close>, which is 0.15 to fifteen digits and not the \<^verbatim>\<open>double\<close> nearest 0.15.
\<close>

theorem CongestionAvoidance_step_witness:
  "m_segmentSize tcb_five \<noteq> 0 \<and> m_segmentSize tcb_five \<le> m_cWnd tcb_five \<and>
   ComputeScalingFactor tcb_five ctl_095 = Inr (fl 1) \<and>
   fl (val (pow_sq (m_rho ctl_095)) /
       val (to_double (m_cWnd tcb_five div m_segmentSize tcb_five))) = fl 0.2 \<and>
   m_cWndCnt ctl_095 = fl 0.95 \<and>
   fadd (fl 0.95) (fl 0.2) = fl 1.15 \<and>
   val (fl 1.15) = 2589569785738035 / 2251799813685248 \<and>
   ca_loop (unat (1 :: uint32_t)) tcb_five ctl_095 = Inr (ctl_095\<lparr>m_cWndCnt := fl 1.15\<rparr>) \<and>
   CongestionAvoidance tcb_five 1 ctl_095 =
     Inr (tcb_five\<lparr>m_cWnd := 8760\<rparr>,
          ctl_095\<lparr>m_cWndCnt := fl (337769972052787 / 2251799813685248)\<rparr>) \<and>
   val (fl (337769972052787 / 2251799813685248)) = frac (val (fl 1.15)) \<and>
   val (fl (337769972052787 / 2251799813685248)) < val (fl 0.15)"
proof -
  have v: "fl 1.15 = fl (2589569785738035 / 2251799813685248)"
    "val (fl 1.15) = 2589569785738035 / 2251799813685248"
    "fadd (fl 0.95) (fl 0.2) = fl 1.15"
    "val (fl (337769972052787 / 2251799813685248)) = frac (val (fl 1.15))"
    "val (fl (337769972052787 / 2251799813685248)) < val (fl 0.15)"
    "fl (val (pow_sq (m_rho ctl_095)) /
         val (to_double (m_cWnd tcb_five div m_segmentSize tcb_five))) = fl 0.2"
    "m_cWndCnt ctl_095 = fl 0.95"
    by (simp_all add: fl_eq_iff rnd_facts fadd_def frac_def pow_sq_def val_to_double
          tcb_five_def ctl_095_def TcpHyblaI_ctor_def)
  have nw: "1 \<le> val (fl 1.15) \<longrightarrow>
      int (unat (m_cWnd tcb_five)) + ca_bytes tcb_five (fl 1.15) (fl 1) < 2 ^ 32"
    unfolding v(1) five_facts(5) by (simp add: tcb_five_def)
  have c: "fl 1.15 = ((\<lambda>x. fadd x (fl (val (pow_sq (m_rho ctl_095)) /
                                    val (to_double (m_cWnd tcb_five div m_segmentSize tcb_five)))))
                  ^^ unat (1 :: uint32_t)) (m_cWndCnt ctl_095)"
    unfolding v(6,7) using v(3) by simp
  have c2: "val (fl 1.15) < 2 ^ 32"
    by (simp add: rnd_facts)
  from CongestionAvoidance_step [OF c, where scale = "fl 1"
      and tcb' = "tcb_five\<lparr>m_cWnd := 8760\<rparr>"
      and s' = "ctl_095\<lparr>m_cWndCnt := fl (337769972052787 / 2251799813685248)\<rparr>"]
    five_facts(1,2,3) c2 nw
  have "ca_loop (unat (1 :: uint32_t)) tcb_five ctl_095 = Inr (ctl_095\<lparr>m_cWndCnt := fl 1.15\<rparr>)"
    by blast
  then show ?thesis
    using five_facts(1,2,3) v five_step by simp
qed

lemma far_first_ack:
  "PktsAcked tcb_far 1 (Seconds 128) TcpHyblaI_ctor = Inr (tcb_far, ctl_far)"
  by (simp add: PktsAcked_def HyblaIRecalcParam_def tcb_far_def ctl_far_def TcpHyblaI_ctor_def
        snapshot_defs arith_defs fl_eq_iff)

lemma far_facts:
  "m_segmentSize tcb_far \<noteq> 0" "m_segmentSize tcb_far \<le> m_cWnd tcb_far"
  "ComputeScalingFactor tcb_far ctl_far = Inr (fl (1/2))"
  "credit_after tcb_far 1 ctl_far = fl (5016522521216103 / 2251799813685248)"
  "ca_bytes tcb_far (fl (5016522521216103 / 2251799813685248)) (fl (1/2)) = 1460"
  "frac (5016522521216103 / 2251799813685248 :: real) = 512922893845607 / 2251799813685248"
  by (simp_all add: tcb_far_def ctl_far_def TcpHyblaI_ctor_def csf_defs snapshot_defs arith_defs
        credit_after_def ca_increment_def ca_bytes_def rnd_facts fl_eq_iff frac_def)

lemma far_step:
  "CongestionAvoidance tcb_far 1 ctl_far =
     Inr (tcb_far\<lparr>m_cWnd := 1164\<rparr>,
          ctl_far\<lparr>m_cWndCnt := fl (512922893845607 / 2251799813685248)\<rparr>)"
proof -
  have "CongestionAvoidance tcb_far 1 ctl_far =
     Inr (tcb_far\<lparr>m_cWnd := m_cWnd tcb_far +
             word_of_int (ca_bytes tcb_far (credit_after tcb_far 1 ctl_far) (fl (1/2)))\<rparr>,
          ctl_far\<lparr>m_cWndCnt := fl (frac (val (credit_after tcb_far 1 ctl_far)))\<rparr>)"
    by (rule ca_step_consume [OF far_facts(1,2,3)])
       (simp_all add: far_facts(4) rnd_facts, simp add: tcb_far_def arith_defs rnd_facts)
  then show ?thesis
    by (simp add: far_facts(4,5,6) rnd_facts) (simp add: tcb_far_def)
qed

text \<open>
  C3, as stated, fails: \<^verbatim>\<open>tcb->m_cWnd += scaledInc\<close> is a \<^verbatim>\<open>uint32_t\<close> addition and wraps. On
  a path with a round-trip time of 128 s the first acknowledgment sets \<open>rho = 2560\<close>. With
  a window of 4294967000 (2941758 segments of 1460 bytes) one acknowledged segment then
  brings the counter from 0 to \<open>2560\<^sup>2 / 2941758\<close>, a little over 2.2; two segments are due
  at a scaling factor of 0.5, and the window should become \<open>4294967000 + 1460 =
  4294968460\<close>; the code leaves 1164.
\<close>

theorem CongestionAvoidance_wrap_counterexample:
  "PktsAcked tcb_far 1 (Seconds 128) TcpHyblaI_ctor = Inr (tcb_far, ctl_far) \<and>
   m_segmentSize tcb_far \<le> m_cWnd tcb_far \<and>
   credit_after tcb_far 1 ctl_far = fl (5016522521216103 / 2251799813685248) \<and>
   \<lfloor>val (fl (5016522521216103 / 2251799813685248))\<rfloor> = 2 \<and>
   ComputeScalingFactor tcb_far ctl_far = Inr (fl (1/2)) \<and>
   CongestionAvoidance tcb_far 1 ctl_far =
     Inr (tcb_far\<lparr>m_cWnd := 1164\<rparr>,
          ctl_far\<lparr>m_cWndCnt := fl (512922893845607 / 2251799813685248)\<rparr>) \<and>
   int (unat (m_cWnd tcb_far)) +
     ca_bytes tcb_far (fl (5016522521216103 / 2251799813685248)) (fl (1/2)) = 4294968460"
  using far_first_ack far_facts far_step by (simp add: rnd_facts) (simp add: tcb_far_def)

subsection \<open>Monotonicity of the growth steps\<close>

text \<open>
  C6, amended. A growth step whose sum of window and increment stays below \<open>2 ^ 32\<close>
  never decreases the window. \<^verbatim>\<open>CongestionAvoidance\<close>, when it returns, leaves the window
  greater than or equal to its value at entry, provided \<open>congestionWindow + floor(floor(c)
  \<times> scale \<times> maxSegmentSize)\<close> is below \<open>2 ^ 32\<close> whenever the counter \<open>c\<close> reached 1.
  \<^verbatim>\<open>SlowStart\<close>, when it returns, was called with \<open>congestionWindow \<le> slowStartThreshold\<close>
  and leaves the window between its value at entry and the threshold, provided
  \<open>congestionWindow + incrementBytes\<close> is below \<open>2 ^ 32\<close> whenever a segment was
  acknowledged. The byte counts are those the code computes, every product rounded to a
  \<^verbatim>\<open>double\<close>.
\<close>

theorem growth_steps_monotone:
  "(CongestionAvoidance tcb n s = Inr (tcb', s') \<and>
    (1 \<le> val (credit_after tcb n s) \<longrightarrow>
       ComputeScalingFactor tcb s = Inr scale \<and>
       int (unat (m_cWnd tcb)) + ca_bytes tcb (credit_after tcb n s) scale < 2 ^ 32)
    \<longrightarrow> m_cWnd tcb \<le> m_cWnd tcb') \<and>
   (SlowStart tcbS nS sS = Inr (tcbS', sS', r) \<and>
    (nS \<noteq> 0 \<longrightarrow>
       ComputeScalingFactor tcbS sS = Inr scaleS \<and>
       int (unat (m_cWnd tcbS)) + ss_bytes tcbS sS scaleS < 2 ^ 32)
    \<longrightarrow> m_cWnd tcbS \<le> m_ssThresh tcbS \<and> m_cWnd tcbS \<le> m_cWnd tcbS' \<and>
        m_cWnd tcbS' \<le> m_ssThresh tcbS)"
proof -
  have ca: "m_cWnd tcb \<le> m_cWnd tcb'"
    if res: "CongestionAvoidance tcb n s = Inr (tcb', s')"
      and nw: "1 \<le> val (credit_after tcb n s) \<longrightarrow>
         ComputeScalingFactor tcb s = Inr scale \<and>
         int (unat (m_cWnd tcb)) + ca_bytes tcb (credit_after tcb n s) scale < 2 ^ 32"
  proof (cases "1 \<le> val (credit_after tcb n s)")
    case False
    then show ?thesis using ca_result [OF res] by auto
  next
    case True
    define c where "c = credit_after tcb n s"
    from ca_result [OF res] True obtain sc where
      sc: "ComputeScalingFactor tcb s = Inr sc"
      and x0: "0 \<le> ca_bytes tcb c sc"
      and t: "tcb' = tcb\<lparr>m_cWnd := m_cWnd tcb + word_of_int (ca_bytes tcb c sc)\<rparr>"
      unfolding c_def by auto
    have "sc = scale" using sc nw True by simp
    then have "m_cWnd tcb \<le> m_cWnd tcb + word_of_int (ca_bytes tcb c sc)"
      using nw True x0 by (intro unat_add_no_wrap(2)) (simp_all add: c_def)
    then show ?thesis by (simp add: t)
  qed
  have ss: "m_cWnd tcbS \<le> m_ssThresh tcbS \<and> m_cWnd tcbS \<le> m_cWnd tcbS' \<and>
        m_cWnd tcbS' \<le> m_ssThresh tcbS"
    if res: "SlowStart tcbS nS sS = Inr (tcbS', sS', r)"
      and nw: "nS \<noteq> 0 \<longrightarrow>
         ComputeScalingFactor tcbS sS = Inr scaleS \<and>
         int (unat (m_cWnd tcbS)) + ss_bytes tcbS sS scaleS < 2 ^ 32"
  proof (cases "nS = 0")
    case True
    then show ?thesis using ss_result [OF res] by auto
  next
    case False
    define x where "x = fmul (fmul (fsub (pow_2 (m_rho sS)) (fl 1)) scaleS)
                             (to_double (m_segmentSize tcbS))"
    from ss_result [OF res] False nw obtain incr where
      le: "m_cWnd tcbS \<le> m_ssThresh tcbS"
      and incr: "to_uint32 x = Inr incr"
      and t: "tcbS' = tcbS\<lparr>m_cWnd := min (m_cWnd tcbS + incr) (m_ssThresh tcbS)\<rparr>"
      unfolding x_def by auto
    have i: "incr = word_of_int (trunc (val x))" "0 \<le> trunc (val x)"
      using to_uint32_Inr [OF incr] by simp_all
    have "trunc (val x) \<le> max 0 \<lfloor>val x\<rfloor>"
      by (simp add: trunc_def)
    moreover have "int (unat (m_cWnd tcbS)) + \<lfloor>val x\<rfloor> < 2 ^ 32"
      using nw False by (simp add: ss_bytes_def x_def)
    moreover have "int (unat (m_cWnd tcbS)) < 2 ^ 32"
      using uint_lt2p [of "m_cWnd tcbS"] by simp
    ultimately have "int (unat (m_cWnd tcbS)) + trunc (val x) < 2 ^ 32"
      by linarith
    then have "m_cWnd tcbS \<le> m_cWnd tcbS + incr"
      unfolding i(1) using i(2) by (intro unat_add_no_wrap(2))
    then show ?thesis using le by (simp add: t)
  qed
  show ?thesis using ca ss by blast
qed

text \<open>
  Both steps on small windows: 7300 grows to 8760 in congestion avoidance, 14600 to 16060
  in slow start.
\<close>

theorem growth_steps_monotone_witness:
  "CongestionAvoidance tcb_five 1 ctl_095 =
     Inr (tcb_five\<lparr>m_cWnd := 8760\<rparr>,
          ctl_095\<lparr>m_cWndCnt := fl (337769972052787 / 2251799813685248)\<rparr>) \<and>
   1 \<le> val (credit_after tcb_five 1 ctl_095) \<and>
   ComputeScalingFactor tcb_five ctl_095 = Inr (fl 1) \<and>
   int (unat (m_cWnd tcb_five)) +
     ca_bytes tcb_five (credit_after tcb_five 1 ctl_095) (fl 1) < 2 ^ 32 \<and>
   m_cWnd tcb_five \<le> m_cWnd (tcb_five\<lparr>m_cWnd := 8760\<rparr>) \<and>
   SlowStart tcb_start 1 TcpHyblaI_ctor = Inr (tcb_start\<lparr>m_cWnd := 16060\<rparr>, TcpHyblaI_ctor, 0) \<and>
   ComputeScalingFactor tcb_start TcpHyblaI_ctor = Inr (fl 1) \<and>
   int (unat (m_cWnd tcb_start)) + ss_bytes tcb_start TcpHyblaI_ctor (fl 1) < 2 ^ 32 \<and>
   m_cWnd tcb_start \<le> m_cWnd (tcb_start\<lparr>m_cWnd := 16060\<rparr>)"
proof -
  have a: "1 \<le> val (credit_after tcb_five 1 ctl_095)"
    "int (unat (m_cWnd tcb_five)) +
       ca_bytes tcb_five (credit_after tcb_five 1 ctl_095) (fl 1) < 2 ^ 32"
    "int (unat (m_cWnd tcb_start)) + ss_bytes tcb_start TcpHyblaI_ctor (fl 1) < 2 ^ 32"
    unfolding five_facts(4,5) start_bytes
    by (simp_all add: rnd_facts tcb_five_def tcb_start_def)
  show ?thesis
    using a five_step five_facts(3) start_step start_csf
      growth_steps_monotone [where tcb = tcb_five and n = 1 and s = ctl_095
        and tcb' = "tcb_five\<lparr>m_cWnd := 8760\<rparr>"
        and s' = "ctl_095\<lparr>m_cWndCnt := fl (337769972052787 / 2251799813685248)\<rparr>"
        and scale = "fl 1" and tcbS = tcb_start and nS = 1 and sS = TcpHyblaI_ctor
        and tcbS' = "tcb_start\<lparr>m_cWnd := 16060\<rparr>" and sS' = TcpHyblaI_ctor and r = 0
        and scaleS = "fl 1"]
    by simp
qed

text \<open>
  C6, as stated, fails: both steps add in \<^verbatim>\<open>uint32_t\<close>. From a window of 4294967000 each
  of the two steps leaves a window of 1164: the congestion-avoidance step on the path
  with a round-trip time of 128 s, after one acknowledged segment, and the slow-start
  step of a fresh controller with the threshold at 4294967295 (so that its precondition
  holds), after one acknowledged segment.
\<close>

theorem growth_steps_wrap_counterexample:
  "CongestionAvoidance tcb_far 1 ctl_far =
     Inr (tcb_far\<lparr>m_cWnd := 1164\<rparr>,
          ctl_far\<lparr>m_cWndCnt := fl (512922893845607 / 2251799813685248)\<rparr>) \<and>
   m_cWnd tcb_far = 4294967000 \<and>
   m_cWnd (tcb_far\<lparr>m_cWnd := 1164\<rparr>) < m_cWnd tcb_far \<and>
   m_cWnd tcb_top \<le> m_ssThresh tcb_top \<and>
   SlowStart tcb_top 1 TcpHyblaI_ctor = Inr (tcb_top\<lparr>m_cWnd := 1164\<rparr>, TcpHyblaI_ctor, 0) \<and>
   m_cWnd tcb_top = 4294967000 \<and>
   m_cWnd (tcb_top\<lparr>m_cWnd := 1164\<rparr>) < m_cWnd tcb_top"
  using far_step top_step by (simp add: tcb_top_def tcb_far_def)

subsection \<open>The range of the credit counter\<close>

lemma ca_cnt_range:
  assumes res: "CongestionAvoidance tcb n s = Inr (tcb', s')" and c0: "0 \<le> val (m_cWndCnt s)"
  shows "0 \<le> val (m_cWndCnt s') \<and> val (m_cWndCnt s') < 1 \<and>
         val (m_cWndCnt s') =
           (if 1 \<le> val (credit_after tcb n s) then frac (val (credit_after tcb n s))
            else val (credit_after tcb n s))"
proof -
  define c where "c = credit_after tcb n s"
  have p: "0 \<le> val c"
    unfolding c_def using c0 by (rule credit_after_nonneg)
  have f: "val (fl (frac (val c))) = frac (val c)"
    using rnd_frac [OF p] by (simp add: frac_def)
  show ?thesis
    using ca_result [OF res] p f frac_lt_1 [of "val c"] frac_ge_0 [of "val c"]
    unfolding c_def [symmetric] by auto
qed

lemma reachable_cnt: "reachable s \<Longrightarrow> 0 \<le> val (m_cWndCnt s) \<and> val (m_cWndCnt s) < 1"
proof (induction rule: reachable.induct)
  case ctor
  then show ?case by (simp add: TcpHyblaI_ctor_def)
next
  case (fork s)
  then show ?case by (simp add: Fork_def)
next
  case (pkts s tcb n rtt tcb' s')
  then show ?case by (auto dest: pkts_cnt)
next
  case (slow s tcb n tcb' s' r)
  then show ?case by (auto dest: slow_state)
next
  case (cong s tcb n tcb' s')
  then show ?case using ca_cnt_range by blast
qed simp_all

text \<open>
  C8. The credit counter is non-negative and below 1.0 in every reachable state. A
  congestion-avoidance step that returns, entered with a non-negative counter, leaves
  the counter in that range: when the loop has brought it to 1.0 or more, the step
  leaves its fractional part, exactly (the difference of a \<^verbatim>\<open>double\<close> and its integer
  part is a \<^verbatim>\<open>double\<close>); otherwise it leaves it as the loop made it. The counter starts
  at 0 and no other operation modifies it.
\<close>

theorem credit_counter_range:
  "(reachable c \<longrightarrow> 0 \<le> val (m_cWndCnt c) \<and> val (m_cWndCnt c) < 1) \<and>
   (CongestionAvoidance tcb n s = Inr (tcb', s') \<and> 0 \<le> val (m_cWndCnt s) \<longrightarrow>
      0 \<le> val (m_cWndCnt s') \<and> val (m_cWndCnt s') < 1 \<and>
      (\<exists>s1. ca_loop (unat n) tcb s = Inr s1 \<and> 0 \<le> val (m_cWndCnt s1) \<and>
            val (m_cWndCnt s') = (if 1 \<le> val (m_cWndCnt s1) then frac (val (m_cWndCnt s1))
                                  else val (m_cWndCnt s1)))) \<and>
   val (m_cWndCnt TcpHyblaI_ctor) = 0 \<and>
   (PktsAcked tcb nP rtt s = Inr (tcbP, sP) \<longrightarrow> m_cWndCnt sP = m_cWndCnt s) \<and>
   (SlowStart tcb nS s = Inr (tcbS, sS, r) \<longrightarrow> m_cWndCnt sS = m_cWndCnt s) \<and>
   m_cWndCnt (Fork s) = m_cWndCnt s"
proof -
  have a: "reachable c \<longrightarrow> 0 \<le> val (m_cWndCnt c) \<and> val (m_cWndCnt c) < 1"
    using reachable_cnt by blast
  have b: "0 \<le> val (m_cWndCnt s') \<and> val (m_cWndCnt s') < 1 \<and>
      (\<exists>s1. ca_loop (unat n) tcb s = Inr s1 \<and> 0 \<le> val (m_cWndCnt s1) \<and>
            val (m_cWndCnt s') = (if 1 \<le> val (m_cWndCnt s1) then frac (val (m_cWndCnt s1))
                                  else val (m_cWndCnt s1)))"
    if res: "CongestionAvoidance tcb n s = Inr (tcb', s')" and c0: "0 \<le> val (m_cWndCnt s)"
  proof -
    have loop: "ca_loop (unat n) tcb s = Inr (s\<lparr>m_cWndCnt := credit_after tcb n s\<rparr>)"
      using ca_result [OF res] by blast
    have "0 \<le> val (m_cWndCnt (s\<lparr>m_cWndCnt := credit_after tcb n s\<rparr>))"
      using credit_after_nonneg [OF c0] by simp
    moreover have "val (m_cWndCnt s') =
        (if 1 \<le> val (m_cWndCnt (s\<lparr>m_cWndCnt := credit_after tcb n s\<rparr>))
         then frac (val (m_cWndCnt (s\<lparr>m_cWndCnt := credit_after tcb n s\<rparr>)))
         else val (m_cWndCnt (s\<lparr>m_cWndCnt := credit_after tcb n s\<rparr>)))"
      using ca_cnt_range [OF res c0] by simp
    ultimately show ?thesis
      using ca_cnt_range [OF res c0] loop by blast
  qed
  have d: "val (m_cWndCnt TcpHyblaI_ctor) = 0" by (simp add: TcpHyblaI_ctor_def)
  have e: "PktsAcked tcb nP rtt s = Inr (tcbP, sP) \<longrightarrow> m_cWndCnt sP = m_cWndCnt s"
    by (auto dest: pkts_cnt)
  have f: "SlowStart tcb nS s = Inr (tcbS, sS, r) \<longrightarrow> m_cWndCnt sS = m_cWndCnt s"
    by (auto dest: slow_state)
  have g: "m_cWndCnt (Fork s) = m_cWndCnt s" by (simp add: Fork_def)
  show ?thesis using a b d e f g by blast
qed

lemma funpow_3: "(f ^^ 3) x = f (f (f x))"
  by (simp add: eval_nat_numeral)

lemma two_facts:
  "m_segmentSize tcb_two \<noteq> 0" "m_segmentSize tcb_two \<le> m_cWnd tcb_two"
  "ComputeScalingFactor tcb_two TcpHyblaI_ctor = Inr (fl 1)"
  "ca_increment tcb_two TcpHyblaI_ctor = fl (1/2)"
  "ca_bytes tcb_two (fl (3/2)) (fl 1) = 1460"
  by (simp_all add: tcb_two_def TcpHyblaI_ctor_def csf_defs snapshot_defs arith_defs
        ca_increment_def ca_bytes_def rnd_facts fl_eq_iff)

lemma two_credit: "credit_after tcb_two 3 TcpHyblaI_ctor = fl (3/2)"
  unfolding credit_after_def two_facts(4)
  by (simp add: funpow_3 fadd_def TcpHyblaI_ctor_def fl_eq_iff)

lemma two_step:
  "CongestionAvoidance tcb_two 3 TcpHyblaI_ctor =
     Inr (tcb_two\<lparr>m_cWnd := 4380\<rparr>, TcpHyblaI_ctor\<lparr>m_cWndCnt := fl (1/2)\<rparr>)"
proof -
  have "CongestionAvoidance tcb_two 3 TcpHyblaI_ctor =
     Inr (tcb_two\<lparr>m_cWnd := m_cWnd tcb_two +
             word_of_int (ca_bytes tcb_two (credit_after tcb_two 3 TcpHyblaI_ctor) (fl 1))\<rparr>,
          TcpHyblaI_ctor\<lparr>m_cWndCnt := fl (frac (val (credit_after tcb_two 3 TcpHyblaI_ctor)))\<rparr>)"
    by (rule ca_step_consume [OF two_facts(1,2,3)])
       (simp_all add: two_credit, simp add: tcb_two_def arith_defs)
  then show ?thesis
    by (simp add: two_credit two_facts(5) frac_def) (simp add: tcb_two_def)
qed

text \<open>
  Three acknowledged segments on a window of two: the loop brings the counter to 1.5,
  the step consumes one segment and leaves 0.5.
\<close>

theorem credit_counter_range_witness:
  "CongestionAvoidance tcb_two 3 TcpHyblaI_ctor =
     Inr (tcb_two\<lparr>m_cWnd := 4380\<rparr>, TcpHyblaI_ctor\<lparr>m_cWndCnt := fl (1/2)\<rparr>) \<and>
   ca_loop (unat (3 :: uint32_t)) tcb_two TcpHyblaI_ctor =
     Inr (TcpHyblaI_ctor\<lparr>m_cWndCnt := fl (3/2)\<rparr>) \<and>
   reachable (TcpHyblaI_ctor\<lparr>m_cWndCnt := fl (1/2)\<rparr>) \<and>
   0 \<le> val (m_cWndCnt TcpHyblaI_ctor) \<and>
   val (m_cWndCnt (TcpHyblaI_ctor\<lparr>m_cWndCnt := fl (1/2)\<rparr>)) = frac (3/2) \<and>
   0 \<le> val (m_cWndCnt (TcpHyblaI_ctor\<lparr>m_cWndCnt := fl (1/2)\<rparr>)) \<and>
   val (m_cWndCnt (TcpHyblaI_ctor\<lparr>m_cWndCnt := fl (1/2)\<rparr>)) < 1"
proof -
  have r: "reachable (TcpHyblaI_ctor\<lparr>m_cWndCnt := fl (1/2)\<rparr>)"
    using reachable.cong [OF reachable.ctor two_step] .
  have l: "ca_loop (unat (3 :: uint32_t)) tcb_two TcpHyblaI_ctor =
      Inr (TcpHyblaI_ctor\<lparr>m_cWndCnt := fl (3/2)\<rparr>)"
    using ca_loop_total [OF two_facts(1,2), of "unat (3 :: uint32_t)" TcpHyblaI_ctor] two_credit
    by (simp add: credit_after_def)
  have z: "0 \<le> val (m_cWndCnt TcpHyblaI_ctor)"
    "val (m_cWndCnt (TcpHyblaI_ctor\<lparr>m_cWndCnt := fl (1/2)\<rparr>)) = frac (3/2)"
    by (simp_all add: TcpHyblaI_ctor_def frac_def)
  show ?thesis
    using r l z two_step
      credit_counter_range [where c = "TcpHyblaI_ctor\<lparr>m_cWndCnt := fl (1/2)\<rparr>"
        and tcb = tcb_two and n = 3 and s = TcpHyblaI_ctor
        and tcb' = "tcb_two\<lparr>m_cWnd := 4380\<rparr>"
        and s' = "TcpHyblaI_ctor\<lparr>m_cWndCnt := fl (1/2)\<rparr>"
        and nP = 1 and rtt = "MilliSeconds 50" and tcbP = tcb_two and sP = TcpHyblaI_ctor
        and nS = 1 and tcbS = tcb_two and sS = TcpHyblaI_ctor and r = 0]
    by blast
qed

subsection \<open>The loop and the closed form\<close>

lemma funpow_fadd_exact:
  assumes "\<forall>j\<le>n. val a + real j * val x \<in> B64"
  shows "val (((\<lambda>c. fadd c x) ^^ n) a) = val a + real n * val x"
  using assms
proof (induction n)
  case 0
  then show ?case by simp
next
  case (Suc n)
  have "\<forall>j\<le>n. val a + real j * val x \<in> B64"
    using Suc.prems by simp
  then have ih: "val (((\<lambda>c. fadd c x) ^^ n) a) = val a + real n * val x"
    by (rule Suc.IH)
  have "val a + real (Suc n) * val x \<in> B64"
    using Suc.prems by blast
  then have r: "rnd (val a + real (Suc n) * val x) = val a + real (Suc n) * val x"
    by (rule rnd_id)
  have e: "val a + real n * val x + val x = val a + real (Suc n) * val x"
    by (simp add: algebra_simps)
  have "((\<lambda>c. fadd c x) ^^ Suc n) a = fadd (((\<lambda>c. fadd c x) ^^ n) a) x"
    by simp
  then have "val (((\<lambda>c. fadd c x) ^^ Suc n) a) = rnd (val (((\<lambda>c. fadd c x) ^^ n) a) + val x)"
    by (simp only: fadd_def val_fl)
  also have "\<dots> = rnd (val a + real (Suc n) * val x)"
    by (simp only: ih e)
  finally show ?case
    by (simp only: r)
qed

text \<open>
  C9, as stated, fails: the loop rounds after every addition, the closed form once. On a
  window of ten segments at \<open>rho = 1\<close> each acknowledged segment adds the \<^verbatim>\<open>double\<close>
  nearest 0.1. Ten additions from 0 give \<open>1 - 2\<^sup>-\<^sup>5\<^sup>3\<close>, the largest \<^verbatim>\<open>double\<close> below 1, and
  the step leaves the window as it is; the closed form \<open>0 + 10 \<times> 1 / 10\<close> is 1, in
  \<^verbatim>\<open>double\<close>s as in exact arithmetic, which reaches the 1.0 at which the step adds a
  segment.
\<close>

theorem ca_loop_closed_form_counterexample:
  "m_segmentSize tcb_ten \<noteq> 0 \<and> m_segmentSize tcb_ten \<le> m_cWnd tcb_ten \<and>
   ca_loop (unat (10 :: uint32_t)) tcb_ten TcpHyblaI_ctor =
     Inr (TcpHyblaI_ctor\<lparr>m_cWndCnt := fl (9007199254740991 / 9007199254740992)\<rparr>) \<and>
   val (fl (9007199254740991 / 9007199254740992)) = 9007199254740991 / 9007199254740992 \<and>
   credit_closed_form tcb_ten 10 TcpHyblaI_ctor = fl 1 \<and>
   val (fl 1) = 1 \<and>
   val (m_cWndCnt TcpHyblaI_ctor) +
     real (unat (10 :: uint32_t)) * (val (m_rho TcpHyblaI_ctor))\<^sup>2 /
       real (unat (m_cWnd tcb_ten div m_segmentSize tcb_ten)) = 1 \<and>
   CongestionAvoidance tcb_ten 10 TcpHyblaI_ctor =
     Inr (tcb_ten, TcpHyblaI_ctor\<lparr>m_cWndCnt := fl (9007199254740991 / 9007199254740992)\<rparr>)"
proof -
  have m: "m_segmentSize tcb_ten \<noteq> 0" "m_segmentSize tcb_ten \<le> m_cWnd tcb_ten"
    by (simp_all add: tcb_ten_def)
  have i: "ca_increment tcb_ten TcpHyblaI_ctor = fl (1/10)"
    by (simp add: ca_increment_def tcb_ten_def TcpHyblaI_ctor_def arith_defs fl_eq_iff)
  have f: "(g ^^ 10) x = g (g (g (g (g (g (g (g (g (g x)))))))))" for g :: "double \<Rightarrow> double" and x
    by (simp add: eval_nat_numeral)
  have c: "credit_after tcb_ten 10 TcpHyblaI_ctor = fl (9007199254740991 / 9007199254740992)"
    unfolding credit_after_def i
    by (simp add: f fadd_def TcpHyblaI_ctor_def rnd_facts fl_eq_iff)
  have l: "ca_loop (unat (10 :: uint32_t)) tcb_ten TcpHyblaI_ctor =
     Inr (TcpHyblaI_ctor\<lparr>m_cWndCnt := fl (9007199254740991 / 9007199254740992)\<rparr>)"
    using ca_loop_total [OF m, of "unat (10 :: uint32_t)" TcpHyblaI_ctor] c
    by (simp add: credit_after_def)
  have s: "CongestionAvoidance tcb_ten 10 TcpHyblaI_ctor =
     Inr (tcb_ten, TcpHyblaI_ctor\<lparr>m_cWndCnt := fl (9007199254740991 / 9007199254740992)\<rparr>)"
    using ca_step_below [OF m, of 10 TcpHyblaI_ctor] by (simp add: c rnd_facts)
  have k: "credit_closed_form tcb_ten 10 TcpHyblaI_ctor = fl 1"
    by (simp add: credit_closed_form_def tcb_ten_def TcpHyblaI_ctor_def arith_defs fl_eq_iff)
  have e: "val (m_cWndCnt TcpHyblaI_ctor) +
     real (unat (10 :: uint32_t)) * (val (m_rho TcpHyblaI_ctor))\<^sup>2 /
       real (unat (m_cWnd tcb_ten div m_segmentSize tcb_ten)) = 1"
    by (simp add: tcb_ten_def TcpHyblaI_ctor_def)
  show ?thesis
    using m l s k e by (simp add: rnd_facts)
qed

text \<open>
  C9, amended. The window does not change during the loop, so every iteration adds the
  identical \<^verbatim>\<open>double\<close> \<open>rho\<^sup>2 / segmentsInWindow\<close>, and the loop, when it returns, returns
  the counter to which that increment has been added \<open>segmentsAcked\<close> times, the sum
  rounded to a \<^verbatim>\<open>double\<close> after each addition; it returns for every snapshot with
  \<open>segmentsInWindow \<ge> 1\<close>. The result is \<open>counter + segmentsAcked \<times> increment\<close>, the closed
  form, whenever \<open>counter + j \<times> increment\<close> is a \<^verbatim>\<open>double\<close> for every \<open>j\<close> up to
  \<open>segmentsAcked\<close>, so that no addition rounds.
\<close>

theorem ca_loop_closed_form:
  "(ca_loop (unat n) tcb s = Inr sL \<longrightarrow>
      sL = s\<lparr>m_cWndCnt := ((\<lambda>c. fadd c (ca_increment tcb s)) ^^ unat n) (m_cWndCnt s)\<rparr>) \<and>
   (m_segmentSize tcb \<noteq> 0 \<and> m_segmentSize tcb \<le> m_cWnd tcb \<longrightarrow>
      ca_loop (unat n) tcb s =
        Inr (s\<lparr>m_cWndCnt := ((\<lambda>c. fadd c (ca_increment tcb s)) ^^ unat n) (m_cWndCnt s)\<rparr>)) \<and>
   ca_increment tcb s =
     fl (val (pow_sq (m_rho s)) / val (to_double (m_cWnd tcb div m_segmentSize tcb))) \<and>
   ((\<forall>j\<le>unat n. val (m_cWndCnt s) + real j * val (ca_increment tcb s) \<in> B64) \<longrightarrow>
      val (((\<lambda>c. fadd c (ca_increment tcb s)) ^^ unat n) (m_cWndCnt s)) =
        val (m_cWndCnt s) + real (unat n) * val (ca_increment tcb s))"
proof -
  have r: "ca_loop (unat n) tcb s = Inr sL \<longrightarrow>
      sL = s\<lparr>m_cWndCnt := ((\<lambda>c. fadd c (ca_increment tcb s)) ^^ unat n) (m_cWndCnt s)\<rparr>"
    using ca_loop_result by blast
  have l: "m_segmentSize tcb \<noteq> 0 \<and> m_segmentSize tcb \<le> m_cWnd tcb \<longrightarrow>
      ca_loop (unat n) tcb s =
        Inr (s\<lparr>m_cWndCnt := ((\<lambda>c. fadd c (ca_increment tcb s)) ^^ unat n) (m_cWndCnt s)\<rparr>)"
    using ca_loop_total by blast
  have i: "ca_increment tcb s =
           fl (val (pow_sq (m_rho s)) / val (to_double (m_cWnd tcb div m_segmentSize tcb)))"
    by (rule ca_increment_def)
  have "val (((\<lambda>c. fadd c (ca_increment tcb s)) ^^ unat n) (m_cWndCnt s)) =
        val (m_cWndCnt s) + real (unat n) * val (ca_increment tcb s)"
    if "\<forall>j\<le>unat n. val (m_cWndCnt s) + real j * val (ca_increment tcb s) \<in> B64"
    using that by (rule funpow_fadd_exact)
  then show ?thesis
    using r l i by blast
qed

text \<open>
  Three acknowledged segments on a window of two, at \<open>rho = 1\<close>: the increment is 0.5, the
  partial sums 0, 0.5, 1 and 1.5 are \<^verbatim>\<open>double\<close>s, and the loop returns \<open>0 + 3 \<times> 0.5 = 1.5\<close>,
  as the closed form does.
\<close>

theorem ca_loop_closed_form_witness:
  "m_segmentSize tcb_two \<noteq> 0 \<and> m_segmentSize tcb_two \<le> m_cWnd tcb_two \<and>
   ca_increment tcb_two TcpHyblaI_ctor = fl (1/2) \<and>
   val (m_cWndCnt TcpHyblaI_ctor) + 0 * val (ca_increment tcb_two TcpHyblaI_ctor) \<in> B64 \<and>
   val (m_cWndCnt TcpHyblaI_ctor) + 1 * val (ca_increment tcb_two TcpHyblaI_ctor) \<in> B64 \<and>
   val (m_cWndCnt TcpHyblaI_ctor) + 2 * val (ca_increment tcb_two TcpHyblaI_ctor) \<in> B64 \<and>
   val (m_cWndCnt TcpHyblaI_ctor) + 3 * val (ca_increment tcb_two TcpHyblaI_ctor) \<in> B64 \<and>
   unat (3 :: uint32_t) = 3 \<and>
   ca_loop (unat (3 :: uint32_t)) tcb_two TcpHyblaI_ctor =
     Inr (TcpHyblaI_ctor\<lparr>m_cWndCnt := fl (3/2)\<rparr>) \<and>
   val (fl (3/2)) = val (m_cWndCnt TcpHyblaI_ctor) + 3 * val (fl (1/2)) \<and>
   ((\<lambda>c. fadd c (ca_increment tcb_two TcpHyblaI_ctor)) ^^ unat (3 :: uint32_t))
      (m_cWndCnt TcpHyblaI_ctor) = fl (3/2) \<and>
   credit_closed_form tcb_two 3 TcpHyblaI_ctor = fl (3/2)"
proof -
  have b: "\<forall>j\<le>unat (3 :: uint32_t).
      val (m_cWndCnt TcpHyblaI_ctor) + real j * val (ca_increment tcb_two TcpHyblaI_ctor) \<in> B64"
  proof (intro allI impI)
    fix j :: nat
    assume "j \<le> unat (3 :: uint32_t)"
    then have "\<bar>int j\<bar> < 2 ^ 53" by simp
    from dyadic_in_B64 [OF this, of 1]
    have "real j * (1/2) \<in> B64" by simp
    moreover have "val (m_cWndCnt TcpHyblaI_ctor) = 0"
      by (simp add: TcpHyblaI_ctor_def)
    ultimately show "val (m_cWndCnt TcpHyblaI_ctor) +
        real j * val (ca_increment tcb_two TcpHyblaI_ctor) \<in> B64"
      unfolding two_facts(4) by simp
  qed
  have l: "ca_loop (unat (3 :: uint32_t)) tcb_two TcpHyblaI_ctor =
      Inr (TcpHyblaI_ctor\<lparr>m_cWndCnt := fl (3/2)\<rparr>)"
    using ca_loop_total [OF two_facts(1,2), of "unat (3 :: uint32_t)" TcpHyblaI_ctor] two_credit
    by (simp add: credit_after_def)
  have k: "credit_closed_form tcb_two 3 TcpHyblaI_ctor = fl (3/2)"
    by (simp add: credit_closed_form_def tcb_two_def TcpHyblaI_ctor_def arith_defs fl_eq_iff)
  have v: "val (fl (3/2)) = val (m_cWndCnt TcpHyblaI_ctor) + 3 * val (fl (1/2))"
    by (simp add: TcpHyblaI_ctor_def)
  have u: "unat (3 :: uint32_t) = 3" by simp
  have b0: "val (m_cWndCnt TcpHyblaI_ctor) + 0 * val (ca_increment tcb_two TcpHyblaI_ctor) \<in> B64"
    using b [rule_format, of 0] by simp
  have b1: "val (m_cWndCnt TcpHyblaI_ctor) + 1 * val (ca_increment tcb_two TcpHyblaI_ctor) \<in> B64"
    using b [rule_format, of 1] by simp
  have b2: "val (m_cWndCnt TcpHyblaI_ctor) + 2 * val (ca_increment tcb_two TcpHyblaI_ctor) \<in> B64"
    using b [rule_format, of 2] by simp
  have b3: "val (m_cWndCnt TcpHyblaI_ctor) + 3 * val (ca_increment tcb_two TcpHyblaI_ctor) \<in> B64"
    using b [rule_format, of 3] by simp
  have p: "((\<lambda>c. fadd c (ca_increment tcb_two TcpHyblaI_ctor)) ^^ unat (3 :: uint32_t))
      (m_cWndCnt TcpHyblaI_ctor) = fl (3/2)"
    using two_credit by (simp add: credit_after_def)
  show ?thesis
    using b0 b1 b2 b3 u l k v p two_facts(1,2,4)
      ca_loop_closed_form [where tcb = tcb_two and n = 3 and s = TcpHyblaI_ctor
        and sL = "TcpHyblaI_ctor\<lparr>m_cWndCnt := fl (3/2)\<rparr>"]
    by blast
qed

end
